theory Spec2Isabelle
  imports Complex_Main "HOL-Library.Multiset" "HOL-Library.List_Lexorder"
begin

chapter \<open>CliveEdit: history, tables, markdown codec, selection and paste sanitizer\<close>

text \<open>
  A shallow embedding of the parts of the editor that its specification makes claims
  about: the undo and redo history, the table operations, the heading slugs and the
  table rules of the markdown codec, the detection and deletion of cross-cell selections,
  and the sanitizer for pasted markup. The definitions of all parts come first, the
  properties after them.
\<close>

section \<open>History engine (useHistory)\<close>

text \<open>
  The composable \<^verbatim>\<open>useHistory\<close> keeps two arrays of entries and one debounce timer.
  An entry is the object literal \<^verbatim>\<open>{ markdown, timestamp }\<close>; the two optional selection
  fields of the \<^verbatim>\<open>HistoryEntry\<close> interface are never written by the composable and are
  kept here as options. Arrays are lists with the top of a stack at the END of the list
  (\<^verbatim>\<open>push\<close> appends, \<^verbatim>\<open>pop\<close> removes the last element). \<^verbatim>\<open>Date.now()\<close> is an
  argument of every operation that reads the clock. The option \<^verbatim>\<open>maxDepth\<close> is a
  JavaScript number, which the code neither checks nor rounds: it is a real number here
  and may be zero, negative or fractional (NaN and the infinities are left out; on
  integer depths the floating-point arithmetic of the code is exact). The debounce timer
  is the markdown its callback would push, or
  \<^verbatim>\<open>None\<close> when no callback is pending.
\<close>

record HistoryEntry =
  markdown :: string
  timestamp :: int
  selectionStart :: "int option"
  selectionEnd :: "int option"

record history =
  undoStack :: "HistoryEntry list"
  redoStack :: "HistoryEntry list"
  debounceTimer :: "string option"

definition mk_entry :: "string \<Rightarrow> int \<Rightarrow> HistoryEntry" where
  "mk_entry md now =
     \<lparr>markdown = md, timestamp = now, selectionStart = None, selectionEnd = None\<rparr>"

definition new_history :: history where
  "new_history = \<lparr>undoStack = [], redoStack = [], debounceTimer = None\<rparr>"

definition canUndo :: "history \<Rightarrow> bool" where
  "canUndo h = (length (undoStack h) > 1)"

definition canRedo :: "history \<Rightarrow> bool" where
  "canRedo h = (length (redoStack h) > 0)"

text \<open>
  \<^verbatim>\<open>arr.splice(0, n)\<close> for a number \<^verbatim>\<open>n\<close>: the delete count is \<^verbatim>\<open>n\<close> truncated to an
  integer and clamped to \<^verbatim>\<open>[0, arr.length]\<close>, and that many elements leave the front.
  (Truncation is toward zero; below zero the clamp gives zero delete count either way.)
\<close>

definition splice0 :: "real \<Rightarrow> 'a list \<Rightarrow> 'a list" where
  "splice0 n xs = drop (nat \<lfloor>n\<rfloor>) xs"

text \<open>The internal \<^verbatim>\<open>_push\<close>.\<close>

definition push_internal :: "real \<Rightarrow> int \<Rightarrow> string \<Rightarrow> history \<Rightarrow> history" where
  "push_internal maxDepth now md h =
     (if undoStack h \<noteq> [] \<and> markdown (last (undoStack h)) = md then h
      else
        let pushed = undoStack h @ [mk_entry md now];
            trimmed = (if real (length pushed) > maxDepth
                       then splice0 (real (length pushed) - maxDepth) pushed
                       else pushed)
        in h\<lparr>undoStack := trimmed, redoStack := []\<rparr>)"

definition pushState :: "string \<Rightarrow> history \<Rightarrow> history" where
  "pushState md h = h\<lparr>debounceTimer := Some md\<rparr>"

text \<open>The callback of the debounce timer, when the timer fires.\<close>

definition timer_fires :: "real \<Rightarrow> int \<Rightarrow> history \<Rightarrow> history" where
  "timer_fires maxDepth now h =
     (case debounceTimer h of
        None \<Rightarrow> h
      | Some md \<Rightarrow> push_internal maxDepth now md (h\<lparr>debounceTimer := None\<rparr>))"

definition pushImmediate :: "real \<Rightarrow> int \<Rightarrow> string \<Rightarrow> history \<Rightarrow> history" where
  "pushImmediate maxDepth now md h =
     push_internal maxDepth now md (h\<lparr>debounceTimer := None\<rparr>)"

definition undo :: "history \<Rightarrow> HistoryEntry option \<times> history" where
  "undo h =
     (if \<not> canUndo h then (None, h)
      else
        let current = last (undoStack h);
            popped = butlast (undoStack h);
            h' = h\<lparr>undoStack := popped, redoStack := redoStack h @ [current]\<rparr>
        in ((if popped = [] then None else Some (last popped)), h'))"

definition redo :: "history \<Rightarrow> HistoryEntry option \<times> history" where
  "redo h =
     (if \<not> canRedo h then (None, h)
      else
        let entry = last (redoStack h);
            h' = h\<lparr>redoStack := butlast (redoStack h), undoStack := undoStack h @ [entry]\<rparr>
        in (Some entry, h'))"

definition init :: "int \<Rightarrow> string \<Rightarrow> history \<Rightarrow> history" where
  "init now md h = h\<lparr>undoStack := [mk_entry md now], redoStack := []\<rparr>"

definition clear :: "history \<Rightarrow> history" where
  "clear h = h\<lparr>undoStack := [], redoStack := [], debounceTimer := None\<rparr>"

text \<open>
  The operations a client can perform on one history object, and the run of a sequence
  of them from the state in which \<^verbatim>\<open>useHistory\<close> returns.
\<close>

datatype hist_op =
    Init string int
  | PushState string
  | TimerFires int
  | PushImmediate string int
  | Undo
  | Redo
  | Clear

fun apply_hist :: "real \<Rightarrow> hist_op \<Rightarrow> history \<Rightarrow> history" where
  "apply_hist maxDepth (Init md now) h = init now md h"
| "apply_hist maxDepth (PushState md) h = pushState md h"
| "apply_hist maxDepth (TimerFires now) h = timer_fires maxDepth now h"
| "apply_hist maxDepth (PushImmediate md now) h = pushImmediate maxDepth now md h"
| "apply_hist maxDepth Undo h = snd (undo h)"
| "apply_hist maxDepth Redo h = snd (redo h)"
| "apply_hist maxDepth Clear h = clear h"

fun run_hist :: "real \<Rightarrow> hist_op list \<Rightarrow> history \<Rightarrow> history" where
  "run_hist maxDepth [] h = h"
| "run_hist maxDepth (x # xs) h = run_hist maxDepth xs (apply_hist maxDepth x h)"

text \<open>
  The quantity the bound on the undo stack rests on: the two stacks together never hold
  more than \<^verbatim>\<open>maxDepth\<close> entries.
\<close>

definition hist_inv :: "real \<Rightarrow> history \<Rightarrow> bool" where
  "hist_inv maxDepth h = (real (length (undoStack h) + length (redoStack h)) \<le> maxDepth)"

section \<open>Tables as the markdown codec reads them\<close>

text \<open>
  The table rules of the codec are applied by the turndown library to the elements of a
  table that came out of the HTML parser (rendered markdown, pasted markup, the
  \<^verbatim>\<open>table\<close> command's skeleton), so each \<^verbatim>\<open><tr>\<close> lies in a \<^verbatim>\<open><thead>\<close>,
  \<^verbatim>\<open><tbody>\<close> or \<^verbatim>\<open><tfoot>\<close>. For these rules a table is the list of its sections in
  document order, a section is its tag and its rows, a row is the list of its cells, and
  a cell is its tag and its child nodes. Rows may differ in length, a table may have
  several sections of a kind or none, and the header section need not come first. The
  content of a cell is inline: text nodes and elements that are not table elements;
  tables nested in cells are outside this model of the codec.
\<close>

datatype cnode = CText string | CElem string "cnode list"

datatype cell_tag = TH | TD

record tcell =
  cellTag :: cell_tag
  childNodes :: "cnode list"

type_synonym trow = "tcell list"

datatype section_tag = THEAD | TBODY | TFOOT

record tsection =
  sectionTag :: section_tag
  rows :: "trow list"

type_synonym table = "tsection list"

text \<open>A data cell and a header cell holding one text node.\<close>

definition td :: "string \<Rightarrow> tcell" where
  "td s = \<lparr>cellTag = TD, childNodes = [CText s]\<rparr>"

definition th :: "string \<Rightarrow> tcell" where
  "th s = \<lparr>cellTag = TH, childNodes = [CText s]\<rparr>"

text \<open>The rows of a table in document order.\<close>

definition all_rows :: "table \<Rightarrow> trow list" where
  "all_rows t = concat (map rows t)"

section \<open>JavaScript strings\<close>

text \<open>
  A JavaScript string is a sequence of UTF-16 code units. The model is the type
  \<^typ>\<open>string\<close>, whose characters are read as the code units U+0000 to U+00FF (Basic Latin
  and Latin-1); text with code units beyond U+00FF is outside the model. On this range
  the white space of \<^verbatim>\<open>String.prototype.trim\<close> and of the regular expression class
  \<^verbatim>\<open>\s\<close> is TAB, LF, VT, FF, CR, SPACE and NO-BREAK SPACE; the class \<^verbatim>\<open>\w\<close> is
  \<^verbatim>\<open>[A-Za-z0-9_]\<close>; and \<^verbatim>\<open>toLowerCase\<close> maps A to Z and the capital letters
  U+00C0 to U+00DE (the multiplication sign U+00D7 apart) to the code unit 32 higher.
\<close>

abbreviation nl :: char where "nl \<equiv> CHR 0x0A"

definition js_space :: "char \<Rightarrow> bool" where
  "js_space c = (of_char c \<in> {9, 10, 11, 12, 13, 32, 160 :: nat})"

definition js_word :: "char \<Rightarrow> bool" where
  "js_word c = (let n = of_char c :: nat in
      (48 \<le> n \<and> n \<le> 57) \<or> (65 \<le> n \<and> n \<le> 90) \<or> n = 95 \<or> (97 \<le> n \<and> n \<le> 122))"

definition lower_char :: "char \<Rightarrow> char" where
  "lower_char c = (let n = of_char c :: nat in
      if (65 \<le> n \<and> n \<le> 90) \<or> (192 \<le> n \<and> n \<le> 222 \<and> n \<noteq> 215)
      then char_of (n + 32) else c)"

definition toLowerCase :: "string \<Rightarrow> string" where
  "toLowerCase s = map lower_char s"

definition js_trim :: "string \<Rightarrow> string" where
  "js_trim s = rev (dropWhile js_space (rev (dropWhile js_space s)))"

text \<open>
  \<^verbatim>\<open>s.replace(/X+/g, rep)\<close> for a class \<^verbatim>\<open>X\<close> of characters: each maximal run of
  characters of the class becomes one copy of \<^verbatim>\<open>rep\<close>.
\<close>

function replace_runs :: "(char \<Rightarrow> bool) \<Rightarrow> string \<Rightarrow> string \<Rightarrow> string" where
  "replace_runs P rep [] = []"
| "replace_runs P rep (c # cs) =
     (if P c then rep @ replace_runs P rep (dropWhile P cs)
      else c # replace_runs P rep cs)"
  by pat_completeness auto
termination
  by (relation "measure (\<lambda>(P, rep, s). length s)")
     (auto simp: length_dropWhile_le less_Suc_eq_le)

section \<open>Heading slugs (markdown.ts)\<close>

text \<open>
  \<^verbatim>\<open>slugify\<close>: lower case, trim, \<^verbatim>\<open>replace(/[^\w\s-]/g, '')\<close>,
  \<^verbatim>\<open>replace(/\s+/g, '-')\<close>, \<^verbatim>\<open>replace(/-+/g, '-')\<close>. The first replacement deletes
  single characters and is a filter.
\<close>

definition slugify :: "string \<Rightarrow> string" where
  "slugify text =
     replace_runs (\<lambda>c. c = CHR ''-'') ''-''
       (replace_runs js_space ''-''
          (filter (\<lambda>c. js_word c \<or> js_space c \<or> c = CHR ''-'')
             (js_trim (toLowerCase text))))"



text \<open>
  The specification's wording of the last two steps, "replace each whitespace run with a
  single hyphen" and "collapse consecutive hyphens into one", read character by
  character: a character of the class that is followed by another one of the class is
  dropped, the last one of a run is written as the replacement character.
\<close>

fun squeeze_runs :: "(char \<Rightarrow> bool) \<Rightarrow> char \<Rightarrow> string \<Rightarrow> string" where
  "squeeze_runs P r [] = []"
| "squeeze_runs P r [c] = (if P c then [r] else [c])"
| "squeeze_runs P r (c # d # cs) =
     (if P c \<and> P d then squeeze_runs P r (d # cs)
      else (if P c then r else c) # squeeze_runs P r (d # cs))"

definition spec_slug :: "string \<Rightarrow> string" where
  "spec_slug text =
     squeeze_runs (\<lambda>c. c = CHR ''-'') (CHR ''-'')
       (squeeze_runs js_space (CHR ''-'')
          (filter (\<lambda>c. js_word c \<or> js_space c \<or> c = CHR ''-'')
             (js_trim (toLowerCase text))))"

text \<open>What a slug looks like: no two hyphens in a row, and only the characters \<^verbatim>\<open>[a-z0-9_-]\<close>.\<close>

fun no_double_hyphen :: "string \<Rightarrow> bool" where
  "no_double_hyphen [] = True"
| "no_double_hyphen [c] = True"
| "no_double_hyphen (c # d # cs) =
     (\<not> (c = CHR ''-'' \<and> d = CHR ''-'') \<and> no_double_hyphen (d # cs))"

definition slug_char :: "char \<Rightarrow> bool" where
  "slug_char c = (let n = of_char c :: nat in
      (48 \<le> n \<and> n \<le> 57) \<or> n = 95 \<or> (97 \<le> n \<and> n \<le> 122) \<or> n = 45)"


section \<open>Serializing tables to markdown (markdown.ts)\<close>

text \<open>\<^verbatim>\<open>Array.prototype.join\<close> on strings.\<close>

fun js_join :: "string \<Rightarrow> string list \<Rightarrow> string" where
  "js_join sep [] = []"
| "js_join sep [x] = x"
| "js_join sep (x # y # xs) = x @ sep @ js_join sep (y # xs)"

text \<open>
  \<^verbatim>\<open>cellContent\<close> runs the turndown service on the cell's \<^verbatim>\<open>innerHTML\<close>, replaces
  every newline by a space and trims. The service call on the cell's markup, the
  markup being that of the cell's child nodes, is the parameter \<^verbatim>\<open>turndown\<close>.
\<close>

definition cellContent :: "(cnode list \<Rightarrow> string) \<Rightarrow> tcell \<Rightarrow> string" where
  "cellContent turndown cell =
     js_trim (map (\<lambda>c. if c = nl then CHR '' '' else c) (turndown (childNodes cell)))"

text \<open>
  The replacement functions of the rules \<^verbatim>\<open>tableRow\<close>, \<^verbatim>\<open>tableHead\<close>,
  \<^verbatim>\<open>tableBody\<close> and \<^verbatim>\<open>table\<close>. The children of a row are its cells, so the filter on
  \<^verbatim>\<open>TH\<close> and \<^verbatim>\<open>TD\<close> keeps them all; \<^verbatim>\<open>el.querySelector('tr')\<close> in a header section
  is its first row.
\<close>

definition tableRow_rule :: "(cnode list \<Rightarrow> string) \<Rightarrow> trow \<Rightarrow> string" where
  "tableRow_rule turndown el =
     (let cells = filter (\<lambda>c. cellTag c = TH \<or> cellTag c = TD) el;
          row = js_join ''|'' (map (\<lambda>c. '' '' @ cellContent turndown c @ '' '') cells)
      in ''|'' @ row @ ''|'' @ [nl])"

definition tableHead_rule :: "string \<Rightarrow> tsection \<Rightarrow> string" where
  "tableHead_rule content el =
     (case rows el of
        [] \<Rightarrow> content
      | firstRow # _ \<Rightarrow>
          let cells = filter (\<lambda>c. cellTag c = TH \<or> cellTag c = TD) firstRow;
              separator = js_join ''|'' (map (\<lambda>_. '' --- '') cells)
          in content @ ''|'' @ separator @ ''|'' @ [nl])"

definition tableBody_rule :: "string \<Rightarrow> string" where
  "tableBody_rule content = content"

definition table_rule :: "string \<Rightarrow> string" where
  "table_rule content = [nl, nl] @ content @ [nl]"

text \<open>
  What the turndown library does around the rules. The \<^verbatim>\<open>content\<close> handed to a rule is
  the replacements of the element's children, joined from left to right by the library's
  \<^verbatim>\<open>join\<close>, which strips the newlines where two strings meet and puts back as many as
  the longer of the two runs had, two at most. An element without text and without cells
  in it (a row with no cell) takes the library's blank rule, and an element no rule
  matches (a footer section) the default rule; both are block elements.
\<close>

definition trimTrailingNewlines :: "string \<Rightarrow> string" where
  "trimTrailingNewlines s = rev (dropWhile (\<lambda>c. c = nl) (rev s))"

definition trimLeadingNewlines :: "string \<Rightarrow> string" where
  "trimLeadingNewlines s = dropWhile (\<lambda>c. c = nl) s"

definition td_join :: "string \<Rightarrow> string \<Rightarrow> string" where
  "td_join output replacement =
     (let s1 = trimTrailingNewlines output;
          s2 = trimLeadingNewlines replacement;
          nls = max (length output - length s1) (length replacement - length s2);
          separator = take nls [nl, nl]
      in s1 @ separator @ s2)"

definition blank_block_rule :: string where
  "blank_block_rule = [nl, nl]"

definition default_block_rule :: "string \<Rightarrow> string" where
  "default_block_rule content = [nl, nl] @ content @ [nl, nl]"

definition row_replacement :: "(cnode list \<Rightarrow> string) \<Rightarrow> trow \<Rightarrow> string" where
  "row_replacement turndown el =
     (if el = [] then blank_block_rule else tableRow_rule turndown el)"

definition process :: "string list \<Rightarrow> string" where
  "process replacements = foldl td_join [] replacements"

definition section_replacement :: "(cnode list \<Rightarrow> string) \<Rightarrow> tsection \<Rightarrow> string" where
  "section_replacement turndown el =
     (let content = process (map (row_replacement turndown) (rows el))
      in case sectionTag el of
           THEAD \<Rightarrow> tableHead_rule content el
         | TBODY \<Rightarrow> tableBody_rule content
         | TFOOT \<Rightarrow> default_block_rule content)"

definition table_replacement :: "(cnode list \<Rightarrow> string) \<Rightarrow> table \<Rightarrow> string" where
  "table_replacement turndown el =
     table_rule (process (map (section_replacement turndown) el))"

text \<open>
  The specification's words: a row is the line \<^verbatim>\<open>| cell | cell |\<close>; the separator line
  has one \<^verbatim>\<open>---\<close> per column of the header row; the header row is the first row of the
  table; the lines are those of the rows, with the separator right after the header row;
  the table is padded with a blank line before and after.
\<close>

definition spec_row_line :: "(tcell \<Rightarrow> string) \<Rightarrow> trow \<Rightarrow> string" where
  "spec_row_line cc row = concat (map (\<lambda>c. ''| '' @ cc c @ '' '') row) @ ''|''"

definition spec_separator_line :: "nat \<Rightarrow> string" where
  "spec_separator_line n = concat (replicate n ''| --- '') @ ''|''"

definition spec_table_lines :: "(tcell \<Rightarrow> string) \<Rightarrow> table \<Rightarrow> string list" where
  "spec_table_lines cc t =
     (case all_rows t of
        [] \<Rightarrow> []
      | header # others \<Rightarrow>
          spec_row_line cc header # spec_separator_line (length header)
            # map (spec_row_line cc) others)"

definition spec_table :: "(tcell \<Rightarrow> string) \<Rightarrow> table \<Rightarrow> string" where
  "spec_table cc t = [nl, nl] @ concat (map (\<lambda>l. l @ [nl]) (spec_table_lines cc t)) @ [nl]"

text \<open>A string is trimmed when it neither starts nor ends with white space.\<close>

definition trimmed :: "string \<Rightarrow> bool" where
  "trimmed s = (s = [] \<or> (\<not> js_space (hd s) \<and> \<not> js_space (last s)))"

text \<open>
  Two concrete tables: one as a spreadsheet pastes it, with a body section only, and one
  as rendered from markdown.
\<close>

definition pasted_table :: table where
  "pasted_table = [\<lparr>sectionTag = TBODY, rows = [[td ''a'', td ''b''], [td ''1'', td ''2'']]\<rparr>]"

definition gfm_table :: table where
  "gfm_table = [\<lparr>sectionTag = THEAD, rows = [[th ''A'', th ''B'']]\<rparr>,
                \<lparr>sectionTag = TBODY, rows = [[td ''1'', td ''2'']]\<rparr>]"


text \<open>
  The turndown service on content that is plain text without markdown characters: the
  text of the nodes.
\<close>

fun textContent :: "cnode \<Rightarrow> string" where
  "textContent (CText s) = s"
| "textContent (CElem tag children) = concat (map textContent children)"

definition plain_text :: "cnode list \<Rightarrow> string" where
  "plain_text nodes = concat (map textContent nodes)"

text \<open>
  A block of lines: a string that ends in exactly one newline and does not start with
  one.
\<close>

definition line_block :: "string \<Rightarrow> bool" where
  "line_block x = (\<exists>u. x = u @ [nl] \<and> u \<noteq> [] \<and> hd u \<noteq> nl \<and> last u \<noteq> nl)"


section \<open>Cross-cell selections (selection.ts)\<close>

text \<open>
  The functions below only walk from a node up its \<^verbatim>\<open>parentNode\<close> links and read, at
  each node, its node type, tag name and \<^verbatim>\<open>contentEditable\<close> property. A container of a
  range is therefore given by its ancestry: the node itself followed by its parent, its
  grandparent and so on up to the root. Nodes carry an identity, which \<^verbatim>\<open>!==\<close>
  compares. A selection is absent (\<^verbatim>\<open>getSelection()\<close> returned null) or has its list
  of ranges, \<^verbatim>\<open>rangeCount\<close> being the length of the list, and its
  \<^verbatim>\<open>isCollapsed\<close> flag.
\<close>

record dom_node =
  nodeId :: nat
  isElement :: bool
  tagName :: string
  contentEditable :: string

type_synonym ancestry = "dom_node list"

fun walkUpToCell :: "ancestry \<Rightarrow> dom_node option" where
  "walkUpToCell [] = None"
| "walkUpToCell (current # parents) =
     (if isElement current then
        (if tagName current = ''TD'' \<or> tagName current = ''TH'' then Some current
         else if tagName current = ''TABLE'' \<or> contentEditable current = ''true'' then None
         else walkUpToCell parents)
      else walkUpToCell parents)"

fun isInsideTable :: "ancestry \<Rightarrow> bool" where
  "isInsideTable [] = False"
| "isInsideTable (current # parents) =
     (if isElement current \<and> tagName current = ''TABLE'' then True
      else if isElement current \<and> contentEditable current = ''true'' then False
      else isInsideTable parents)"

record dom_range =
  commonAncestorContainer :: ancestry
  startContainer :: ancestry
  endContainer :: ancestry

record dom_selection =
  ranges :: "dom_range list"
  isCollapsed :: bool

definition same_node :: "dom_node \<Rightarrow> dom_node \<Rightarrow> bool" where
  "same_node a b = (nodeId a = nodeId b)"

definition isSelectionCrossCell :: "dom_selection option \<Rightarrow> bool" where
  "isSelectionCrossCell sel =
     (case sel of
        None \<Rightarrow> False
      | Some s \<Rightarrow>
          if ranges s = [] \<or> isCollapsed s then False
          else
            let rng = hd (ranges s) in
            if walkUpToCell (commonAncestorContainer rng) \<noteq> None then False
            else if \<not> isInsideTable (commonAncestorContainer rng) then False
            else
              let startCell = walkUpToCell (startContainer rng);
                  endCell = walkUpToCell (endContainer rng)
              in if startCell \<noteq> None \<and> endCell \<noteq> None
                    \<and> \<not> same_node (the startCell) (the endCell) then True
                 else if startCell \<noteq> None \<and> endCell \<noteq> None
                    \<and> same_node (the startCell) (the endCell) then False
                 else if startCell \<noteq> None \<or> endCell \<noteq> None then False
                 else True)"

text \<open>
  The specification's decision procedure on a range: (1) the common ancestor resolves
  to a cell: not cross-cell; (2) the common ancestor is not inside a table: not
  cross-cell; (3) otherwise the cells of the start and of the end are resolved; two
  different cells: cross-cell; exactly one resolved: not cross-cell; none resolved:
  cross-cell.
\<close>

definition spec_four_branch :: "dom_range \<Rightarrow> bool" where
  "spec_four_branch rng =
     (if walkUpToCell (commonAncestorContainer rng) \<noteq> None then False
      else if \<not> isInsideTable (commonAncestorContainer rng) then False
      else
        (case (walkUpToCell (startContainer rng), walkUpToCell (endContainer rng)) of
           (Some a, Some b) \<Rightarrow> \<not> same_node a b
         | (Some a, None) \<Rightarrow> False
         | (None, Some b) \<Rightarrow> False
         | (None, None) \<Rightarrow> True))"

text \<open>
  Concrete nodes and selections: an editor root holding a table with one row of two
  cells; a caret placed at the level of the row; a selection from the text of the first
  cell to the text of the second.
\<close>

definition elem :: "nat \<Rightarrow> string \<Rightarrow> dom_node" where
  "elem i tag = \<lparr>nodeId = i, isElement = True, tagName = tag, contentEditable = ''inherit''\<rparr>"

definition text_node :: "nat \<Rightarrow> dom_node" where
  "text_node i = \<lparr>nodeId = i, isElement = False, tagName = [], contentEditable = []\<rparr>"

definition editor_root :: dom_node where
  "editor_root = \<lparr>nodeId = 0, isElement = True, tagName = ''DIV'', contentEditable = ''true''\<rparr>"

definition at_row :: ancestry where
  "at_row = [elem 3 ''TR'', elem 2 ''TBODY'', elem 1 ''TABLE'', editor_root]"

definition caret_at_row :: dom_selection where
  "caret_at_row =
     \<lparr>ranges = [\<lparr>commonAncestorContainer = at_row, startContainer = at_row,
                 endContainer = at_row\<rparr>],
      isCollapsed = True\<rparr>"

definition in_cell_a :: ancestry where
  "in_cell_a = text_node 10 # elem 4 ''TD'' # at_row"

definition in_cell_b :: ancestry where
  "in_cell_b = text_node 11 # elem 5 ''TD'' # at_row"

definition two_cells_selected :: dom_selection where
  "two_cells_selected =
     \<lparr>ranges = [\<lparr>commonAncestorContainer = at_row, startContainer = in_cell_a,
                 endContainer = in_cell_b\<rparr>],
      isCollapsed = False\<rparr>"


section \<open>The paste sanitizer (sanitize.ts)\<close>

text \<open>
  \<^verbatim>\<open>sanitizeHtml\<close> parses the markup with \<^verbatim>\<open>DOMParser\<close> as \<^verbatim>\<open>text/html\<close>, cleans the
  children of the body in place and returns the body's \<^verbatim>\<open>innerHTML\<close>. The parser and
  the serializer belong to the platform; the model starts at the parsed tree and ends at
  the cleaned tree. A node is an element, a text node or a comment. An element has a
  namespace, a local name, its attributes (name and value, names unique within an
  element) and its children. The HTML parser puts \<^verbatim>\<open><svg>\<close> and \<^verbatim>\<open><math>\<close> and what
  they contain into the SVG and MathML namespaces, and writes local names in lower case.
  \<^verbatim>\<open>Element.tagName\<close> is the qualified name in ASCII upper case for an element in the
  HTML namespace of an HTML document, and the qualified name as it is for any other
  element (DOM standard, the \<^verbatim>\<open>tagName\<close> getter). Two features of the platform are
  left out: a form whose controls are named like a property that \<^verbatim>\<open>cleanNode\<close> reads
  (\<^verbatim>\<open>nodeType\<close>, \<^verbatim>\<open>tagName\<close>, \<^verbatim>\<open>attributes\<close>, \<^verbatim>\<open>childNodes\<close>) shadows that
  property, and the content of a \<^verbatim>\<open>template\<close> element is not among its child nodes; on
  such input the code cleans less than the functions below.
\<close>

datatype namespace = HTML_NS | SVG_NS | MathML_NS

datatype html_node =
    Element namespace string "(string \<times> string) list" "html_node list"
  | TextNode string
  | CommentNode string

definition upper_ascii :: "char \<Rightarrow> char" where
  "upper_ascii c = (let n = of_char c :: nat in
      if 97 \<le> n \<and> n \<le> 122 then char_of (n - 32) else c)"

definition element_tagName :: "namespace \<Rightarrow> string \<Rightarrow> string" where
  "element_tagName ns localName =
     (if ns = HTML_NS then map upper_ascii localName else localName)"

definition REMOVE_WITH_CONTENT :: "string list" where
  "REMOVE_WITH_CONTENT =
     [''SCRIPT'', ''STYLE'', ''IFRAME'', ''OBJECT'', ''EMBED'', ''APPLET'',
      ''FORM'', ''INPUT'', ''TEXTAREA'', ''SELECT'', ''BUTTON'',
      ''LINK'', ''META'', ''NOSCRIPT'']"

definition ALLOWED_ATTRS :: "string list" where
  "ALLOWED_ATTRS =
     [''href'', ''src'', ''alt'', ''title'', ''width'', ''height'',
      ''colspan'', ''rowspan'', ''class'']"

text \<open>\<^verbatim>\<open>s.startsWith(p)\<close>.\<close>

definition startsWith :: "string \<Rightarrow> string \<Rightarrow> bool" where
  "startsWith s p = (take (length p) s = p)"

text \<open>
  The body of the loop over the attributes decides, for one attribute of the snapshot
  \<^verbatim>\<open>Array.from(el.attributes)\<close>, whether \<^verbatim>\<open>el.removeAttribute(attr.name)\<close> is called.
  The loop runs over the snapshot and removes from the element's live attribute list.
\<close>

definition blocked_uri :: "string \<Rightarrow> bool" where
  "blocked_uri v =
     (let val = toLowerCase (js_trim v)
      in startsWith val ''javascript:'' \<or> startsWith val ''data:text/html'')"

definition attr_removed :: "string \<times> string \<Rightarrow> bool" where
  "attr_removed attr =
     (let name = toLowerCase (fst attr) in
      if startsWith name ''on'' then True
      else if name = ''style'' then True
      else if name \<notin> set ALLOWED_ATTRS then True
      else if name = ''href'' \<or> name = ''src'' then blocked_uri (snd attr)
      else False)"

definition removeAttribute :: "string \<Rightarrow> (string \<times> string) list \<Rightarrow> (string \<times> string) list" where
  "removeAttribute name attributes = filter (\<lambda>a. fst a \<noteq> name) attributes"

definition clean_attributes :: "(string \<times> string) list \<Rightarrow> (string \<times> string) list" where
  "clean_attributes attrs =
     fold (\<lambda>attr current. if attr_removed attr then removeAttribute (fst attr) current
                           else current) attrs attrs"

text \<open>
  \<^verbatim>\<open>cleanNode\<close> walks the snapshot of the children of a node: an element whose
  \<^verbatim>\<open>tagName\<close> is in \<^verbatim>\<open>REMOVE_WITH_CONTENT\<close> is removed with its subtree, any other
  element has its attributes cleaned and its children cleaned recursively, a comment is
  removed, a text node stays.
\<close>

fun clean_child :: "html_node \<Rightarrow> html_node list" where
  "clean_child (Element ns localName attrs children) =
     (if element_tagName ns localName \<in> set REMOVE_WITH_CONTENT then []
      else [Element ns localName (clean_attributes attrs) (concat (map clean_child children))])"
| "clean_child (TextNode s) = [TextNode s]"
| "clean_child (CommentNode s) = []"

definition cleanNode :: "html_node list \<Rightarrow> html_node list" where
  "cleanNode nodes = concat (map clean_child nodes)"

definition sanitizeHtml :: "html_node list \<Rightarrow> html_node list" where
  "sanitizeHtml body = cleanNode body"

text \<open>
  What the specification asks of the output: no element of the listed kinds, and on every
  element only attributes that are allow-listed, are neither event handlers nor
  \<^verbatim>\<open>style\<close>, and, for \<^verbatim>\<open>href\<close> and \<^verbatim>\<open>src\<close>, do not carry a blocked scheme.
\<close>

definition forbidden_elements :: "string list" where
  "forbidden_elements =
     [''script'', ''style'', ''iframe'', ''object'', ''embed'', ''applet'',
      ''form'', ''input'', ''textarea'', ''select'', ''button'']"

definition spec_safe_attr :: "string \<times> string \<Rightarrow> bool" where
  "spec_safe_attr attr =
     (let name = toLowerCase (fst attr) in
      \<not> startsWith name ''on'' \<and> name \<noteq> ''style'' \<and> name \<in> set ALLOWED_ATTRS
      \<and> \<not> ((name = ''href'' \<or> name = ''src'') \<and> blocked_uri (snd attr)))"

fun spec_safe_node :: "html_node \<Rightarrow> bool" where
  "spec_safe_node (Element ns localName attrs children) =
     (localName \<notin> set forbidden_elements \<and> list_all spec_safe_attr attrs
      \<and> list_all spec_safe_node children)"
| "spec_safe_node (TextNode s) = True"
| "spec_safe_node (CommentNode s) = True"

text \<open>The attribute part of that alone.\<close>

fun spec_safe_attrs_node :: "html_node \<Rightarrow> bool" where
  "spec_safe_attrs_node (Element ns localName attrs children) =
     (list_all spec_safe_attr attrs \<and> list_all spec_safe_attrs_node children)"
| "spec_safe_attrs_node (TextNode s) = True"
| "spec_safe_attrs_node (CommentNode s) = True"

text \<open>Trees all of whose elements are in the HTML namespace.\<close>

fun html_only :: "html_node \<Rightarrow> bool" where
  "html_only (Element ns localName attrs children) =
     (ns = HTML_NS \<and> list_all html_only children)"
| "html_only (TextNode s) = True"
| "html_only (CommentNode s) = True"

text \<open>
  The trees the parser builds for \<^verbatim>\<open><svg><script>alert(1)</script></svg>\<close> and
  \<^verbatim>\<open><svg><style>*{display:none}</style></svg>\<close>.
\<close>

definition svg_script :: "html_node list" where
  "svg_script = [Element SVG_NS ''svg'' []
                   [Element SVG_NS ''script'' [] [TextNode ''alert(1)'']]]"

definition svg_style :: "html_node list" where
  "svg_style = [Element SVG_NS ''svg'' []
                  [Element SVG_NS ''style'' [] [TextNode ''*{display:none}'']]]"


section \<open>The document tree (tableOps, handleCrossCellDelete of selection.ts)\<close>

text \<open>
  The row operations of tableOps and \<^verbatim>\<open>handleCrossCellDelete\<close> read the document through
  \<^verbatim>\<open>closest\<close>, \<^verbatim>\<open>querySelector\<close>, \<^verbatim>\<open>querySelectorAll\<close>, \<^verbatim>\<open>childNodes\<close> and
  \<^verbatim>\<open>parentNode\<close>, which see every node: the white-space text nodes that the HTML
  parser leaves between the sections, rows and cells of a rendered table, and tables
  nested in cells. They are modelled on the tree of nodes itself. A node is a text node
  (a comment node behaves alike here) or an element with its \<^verbatim>\<open>tagName\<close> (upper case: the
  elements are HTML elements), whether its \<^verbatim>\<open>contentEditable\<close> is \<^verbatim>\<open>'true'\<close>, and its
  child nodes. The tree is a part of the document that holds all that the functions look
  at: there is no table element above its top node. A node is named by its path of child
  indices from the top node.
\<close>

datatype dnode = DText string | DElem string bool "dnode list"

fun dom_childNodes :: "dnode \<Rightarrow> dnode list" where
  "dom_childNodes (DText s) = []"
| "dom_childNodes (DElem tag ed cs) = cs"

fun node_at :: "dnode \<Rightarrow> nat list \<Rightarrow> dnode option" where
  "node_at n [] = Some n"
| "node_at (DText s) (i # p) = None"
| "node_at (DElem tag ed cs) (i # p) = (if i < length cs then node_at (cs ! i) p else None)"

text \<open>The node at a path; the empty text node stands for a path that leads nowhere.\<close>

definition subtree :: "dnode \<Rightarrow> nat list \<Rightarrow> dnode" where
  "subtree doc p = (case node_at doc p of Some n \<Rightarrow> n | None \<Rightarrow> DText [])"

fun has_tag :: "string list \<Rightarrow> dnode option \<Rightarrow> bool" where
  "has_tag tags (Some (DElem tag ed cs)) = (tag \<in> set tags)"
| "has_tag tags (Some (DText s)) = False"
| "has_tag tags None = False"


text \<open>
  A node and its ancestors, nearest first: the order in which a loop over
  \<^verbatim>\<open>parentNode\<close> sees them.
\<close>

definition inclusive_ancestors :: "nat list \<Rightarrow> nat list list" where
  "inclusive_ancestors p = map (\<lambda>k. take k p) (rev [0..<Suc (length p)])"

text \<open>
  The descendants of a node in document order, by their paths from the node;
  \<^verbatim>\<open>querySelectorAll\<close> for a list of element names keeps the elements with one of these
  names, \<^verbatim>\<open>querySelector\<close> takes the first of them, and \<^verbatim>\<open>closest\<close> the nearest
  of the element itself and its ancestors.
\<close>

function descendants :: "dnode \<Rightarrow> nat list list" where
  "descendants (DText s) = []"
| "descendants (DElem tag ed cs) =
     concat (map (\<lambda>i. [i] # map ((#) i) (descendants (cs ! i))) [0..<length cs])"
  by pat_completeness auto
termination
  by (relation "measure size") (auto simp: less_Suc_eq_le intro!: size_list_estimation')

definition querySelectorAll :: "string list \<Rightarrow> dnode \<Rightarrow> nat list list" where
  "querySelectorAll tags n = filter (\<lambda>q. has_tag tags (node_at n q)) (descendants n)"

definition querySelector :: "string list \<Rightarrow> dnode \<Rightarrow> nat list option" where
  "querySelector tags n = (case querySelectorAll tags n of [] \<Rightarrow> None | q # qs \<Rightarrow> Some q)"

definition closest :: "dnode \<Rightarrow> nat list \<Rightarrow> string \<Rightarrow> nat list option" where
  "closest doc p tag = find (\<lambda>q. has_tag [tag] (node_at doc q)) (inclusive_ancestors p)"

text \<open>
  Replacing the node at a path; \<^verbatim>\<open>node.remove()\<close>; \<^verbatim>\<open>parent.insertBefore(x, child)\<close>
  for the child at index \<^verbatim>\<open>i\<close> (with \<^verbatim>\<open>i\<close> the number of children when the reference child
  is null: the node is appended); and \<^verbatim>\<open>parent.appendChild(x)\<close>.
\<close>

fun update_at :: "nat list \<Rightarrow> (dnode \<Rightarrow> dnode) \<Rightarrow> dnode \<Rightarrow> dnode" where
  "update_at [] f n = f n"
| "update_at (i # p) f (DText s) = DText s"
| "update_at (i # p) f (DElem tag ed cs) =
     (if i < length cs then DElem tag ed (cs[i := update_at p f (cs ! i)])
      else DElem tag ed cs)"

definition remove_nth :: "nat \<Rightarrow> 'a list \<Rightarrow> 'a list" where
  "remove_nth i xs = take i xs @ drop (Suc i) xs"

fun without_child :: "nat \<Rightarrow> dnode \<Rightarrow> dnode" where
  "without_child i (DText s) = DText s"
| "without_child i (DElem tag ed cs) = DElem tag ed (remove_nth i cs)"

definition remove_node :: "nat list \<Rightarrow> dnode \<Rightarrow> dnode" where
  "remove_node p doc =
     (if p = [] then doc else update_at (butlast p) (without_child (last p)) doc)"

fun insertBefore :: "nat \<Rightarrow> dnode \<Rightarrow> dnode \<Rightarrow> dnode" where
  "insertBefore i x (DText s) = DText s"
| "insertBefore i x (DElem tag ed cs) = DElem tag ed (take i cs @ x # drop i cs)"

fun appendChild :: "dnode \<Rightarrow> dnode \<Rightarrow> dnode" where
  "appendChild x (DText s) = DText s"
| "appendChild x (DElem tag ed cs) = DElem tag ed (cs @ [x])"

subsection \<open>addRowAbove, addRowBelow\<close>

text \<open>
  \<^verbatim>\<open>getColumnCount(table)\<close> reads \<^verbatim>\<open>table.querySelector('tr')\<close>, the first row below
  the table in document order, and counts its \<^verbatim>\<open>cells\<close>: its children that are
  \<^verbatim>\<open>td\<close> or \<^verbatim>\<open>th\<close> elements. The loop of \<^verbatim>\<open>createDataRow\<close> appends \<^verbatim>\<open>colCount\<close>
  cells \<^verbatim>\<open><td>&nbsp;</td>\<close> to a new row: setting \<^verbatim>\<open>innerHTML\<close> to \<^verbatim>\<open>&nbsp;\<close> gives
  the cell one text node holding the non-breaking space U+00A0.
\<close>

definition getColumnCount :: "dnode \<Rightarrow> nat" where
  "getColumnCount table =
     (case querySelector [''TR''] table of
        None \<Rightarrow> 0
      | Some firstRow \<Rightarrow>
          length (filter (\<lambda>n. has_tag [''TD'', ''TH''] (Some n))
                    (dom_childNodes (subtree table firstRow))))"

definition createDataRow :: "nat \<Rightarrow> dnode" where
  "createDataRow colCount =
     DElem ''TR'' False (replicate colCount (DElem ''TD'' False [DText [CHR 0xA0]]))"

text \<open>
  The branch shared by \<^verbatim>\<open>addRowAbove\<close> and \<^verbatim>\<open>addRowBelow\<close> for a row whose parent is
  a \<^verbatim>\<open>thead\<close>: the new row becomes the first child of \<^verbatim>\<open>table.querySelector('tbody')\<close>,
  and a new \<^verbatim>\<open>tbody\<close> is appended to the table when it has none. Otherwise the new row is
  inserted among the children of the row's parent, before the row or before its next
  sibling. Both return the new row, or null when the cell has no row or no table above it.
\<close>

definition insert_into_tbody :: "dnode \<Rightarrow> nat list \<Rightarrow> dnode \<Rightarrow> dnode" where
  "insert_into_tbody doc tbl newRow =
     (case querySelector [''TBODY''] (subtree doc tbl) of
        Some tbody \<Rightarrow> update_at (tbl @ tbody) (insertBefore 0 newRow) doc
      | None \<Rightarrow> update_at tbl (appendChild (DElem ''TBODY'' False [newRow])) doc)"

definition addRowAbove :: "dnode \<Rightarrow> nat list \<Rightarrow> dnode option \<times> dnode" where
  "addRowAbove doc cell =
     (case closest doc cell ''TR'' of
        None \<Rightarrow> (None, doc)
      | Some row \<Rightarrow>
          (case closest doc cell ''TABLE'' of
             None \<Rightarrow> (None, doc)
           | Some tbl \<Rightarrow>
               let colCount = getColumnCount (subtree doc tbl);
                   newRow = createDataRow colCount
               in if row \<noteq> [] \<and> has_tag [''THEAD''] (node_at doc (butlast row))
                  then (Some newRow, insert_into_tbody doc tbl newRow)
                  else if row = [] then (Some newRow, doc)
                  else (Some newRow,
                        update_at (butlast row) (insertBefore (last row) newRow) doc)))"

definition addRowBelow :: "dnode \<Rightarrow> nat list \<Rightarrow> dnode option \<times> dnode" where
  "addRowBelow doc cell =
     (case closest doc cell ''TR'' of
        None \<Rightarrow> (None, doc)
      | Some row \<Rightarrow>
          (case closest doc cell ''TABLE'' of
             None \<Rightarrow> (None, doc)
           | Some tbl \<Rightarrow>
               let colCount = getColumnCount (subtree doc tbl);
                   newRow = createDataRow colCount
               in if row \<noteq> [] \<and> has_tag [''THEAD''] (node_at doc (butlast row))
                  then (Some newRow, insert_into_tbody doc tbl newRow)
                  else if row = [] then (Some newRow, doc)
                  else (Some newRow,
                        update_at (butlast row) (insertBefore (Suc (last row)) newRow) doc)))"

text \<open>
  The specification's words: the first row of a table is the first row below the table
  element in document order, and its width the number of its cells. A ragged table as a
  concrete input: a header row of three cells, and body rows of one and of two cells,
  \<^verbatim>\<open><table><thead><tr><th>H1</th><th>H2</th><th>H3</th></tr></thead><tbody><tr><td>a</td></tr><tr><td>b</td><td>c</td></tr></tbody></table>\<close>.
\<close>

definition spec_first_row :: "dnode \<Rightarrow> nat list \<Rightarrow> nat list option" where
  "spec_first_row doc tbl =
     find (\<lambda>r. has_tag [''TR''] (node_at doc r)) (map ((@) tbl) (descendants (subtree doc tbl)))"

definition spec_first_row_width :: "dnode \<Rightarrow> nat list \<Rightarrow> nat" where
  "spec_first_row_width doc tbl =
     (case spec_first_row doc tbl of
        None \<Rightarrow> 0
      | Some r \<Rightarrow> length (filter (\<lambda>n. has_tag [''TD'', ''TH''] (Some n))
                             (dom_childNodes (subtree doc r))))"

definition small_table :: dnode where
  "small_table =
     DElem ''TABLE'' False
       [DElem ''THEAD'' False
          [DElem ''TR'' False [DElem ''TH'' False [DText ''H1''], DElem ''TH'' False [DText ''H2''],
                               DElem ''TH'' False [DText ''H3'']]],
        DElem ''TBODY'' False
          [DElem ''TR'' False [DElem ''TD'' False [DText ''a'']],
           DElem ''TR'' False [DElem ''TD'' False [DText ''b''], DElem ''TD'' False [DText ''c'']]]]"

text \<open>A table with a header section only: \<^verbatim>\<open><table><thead><tr><th>H1</th><th>H2</th></tr></thead></table>\<close>.\<close>

definition header_only :: dnode where
  "header_only =
     DElem ''TABLE'' False
       [DElem ''THEAD'' False
          [DElem ''TR'' False [DElem ''TH'' False [DText ''H1''],
                               DElem ''TH'' False [DText ''H2'']]]]"

subsection \<open>removeRow\<close>

text \<open>
  \<^verbatim>\<open>removeRow(cell)\<close> for the cell at a path: the result and the document afterwards.
  The guard for the last body row reads \<^verbatim>\<open>table.querySelector('tbody')\<close>, the first
  body section of the table in document order, and counts
  \<^verbatim>\<open>tbody.querySelectorAll('tr')\<close>, every row below it.
\<close>

definition removeRow :: "dnode \<Rightarrow> nat list \<Rightarrow> bool \<times> dnode" where
  "removeRow doc cell =
     (case closest doc cell ''TR'' of
        None \<Rightarrow> (False, doc)
      | Some row \<Rightarrow>
          (case closest doc cell ''TABLE'' of
             None \<Rightarrow> (False, doc)
           | Some tbl \<Rightarrow>
               if row \<noteq> [] \<and> has_tag [''THEAD''] (node_at doc (butlast row)) then (False, doc)
               else
                 (case querySelector [''TBODY''] (subtree doc tbl) of
                    None \<Rightarrow> (True, remove_node row doc)
                  | Some tbody \<Rightarrow>
                      if length (querySelectorAll [''TR''] (subtree doc (tbl @ tbody))) \<le> 1
                      then (False, doc)
                      else (True, remove_node row doc))))"

text \<open>
  Two tables as concrete inputs. The first is
  \<^verbatim>\<open><table><thead><tr><th>H</th></tr></thead><tbody><tr><td>a</td></tr></tbody><tbody><tr><td>b</td></tr><tr><td>c</td></tr></tbody></table>\<close>,
  with two body sections. The second has one body row, whose cell holds a table of two
  rows:
  \<^verbatim>\<open><table><thead><tr><th>H</th></tr></thead><tbody><tr><td><table><tbody><tr><td>x</td></tr><tr><td>y</td></tr></tbody></table></td></tr></tbody></table>\<close>.
\<close>

definition two_bodies :: dnode where
  "two_bodies =
     DElem ''TABLE'' False
       [DElem ''THEAD'' False [DElem ''TR'' False [DElem ''TH'' False [DText ''H'']]],
        DElem ''TBODY'' False [DElem ''TR'' False [DElem ''TD'' False [DText ''a'']]],
        DElem ''TBODY'' False [DElem ''TR'' False [DElem ''TD'' False [DText ''b'']],
                               DElem ''TR'' False [DElem ''TD'' False [DText ''c'']]]]"

definition nested_table :: dnode where
  "nested_table =
     DElem ''TABLE'' False
       [DElem ''THEAD'' False [DElem ''TR'' False [DElem ''TH'' False [DText ''H'']]],
        DElem ''TBODY'' False
          [DElem ''TR'' False
             [DElem ''TD'' False
                [DElem ''TABLE'' False
                   [DElem ''TBODY'' False
                      [DElem ''TR'' False [DElem ''TD'' False [DText ''x'']],
                       DElem ''TR'' False [DElem ''TD'' False [DText ''y'']]]]]]]]"

subsection \<open>handleCrossCellDelete\<close>

text \<open>
  A boundary point is a node and an offset. The DOM orders boundary points by their
  position in the tree; for points given by paths this is the lexicographic order of the
  path followed by the offset, a point whose sequence is a proper beginning of another's
  coming first. \<^verbatim>\<open>a.compareBoundaryPoints(how, b)\<close> returns -1, 0 or 1 for the two
  points that \<^verbatim>\<open>how\<close> picks.
\<close>

type_synonym boundary_point = "nat list \<times> nat"



text \<open>
  The selection as the function reads it: the two boundary points of its first range
  (\<^verbatim>\<open>getRangeAt(0)\<close>) and its anchor (\<^verbatim>\<open>anchorNode\<close>, \<^verbatim>\<open>anchorOffset\<close>). With a
  single range the anchor is the start of the range, or its end when the selection was
  made backwards; a selection of several ranges (the cell selections of Firefox) may have
  its anchor in another range. Ranges are live: the DOM moves their boundary points, the
  anchor among them, when nodes are removed. The common ancestor container of a range is
  the deepest node above both of its ends.
\<close>

record live_selection =
  rangeStart :: boundary_point
  rangeEnd :: boundary_point
  anchorPoint :: boundary_point






text \<open>
  \<^verbatim>\<open>cell.innerHTML = ''\<close> removes the children of the cell. A boundary point of a live
  range that lies in the cell (at the cell itself or at a node below it) ends at offset 0
  of the cell; other boundary points stay.
\<close>

fun without_children :: "dnode \<Rightarrow> dnode" where
  "without_children (DText s) = DText s"
| "without_children (DElem tag ed cs) = DElem tag ed []"

definition is_prefix :: "nat list \<Rightarrow> nat list \<Rightarrow> bool" where
  "is_prefix a b = (take (length a) b = a)"

definition is_inside :: "nat list \<Rightarrow> boundary_point \<Rightarrow> bool" where
  "is_inside node p = is_prefix node (fst p)"

definition after_removal :: "nat list \<Rightarrow> boundary_point \<Rightarrow> boundary_point" where
  "after_removal cell p = (if is_inside cell p then (cell, 0) else p)"

definition clear_cell :: "nat list \<Rightarrow> dnode \<times> live_selection \<Rightarrow> dnode \<times> live_selection" where
  "clear_cell c st =
     (update_at c without_children (fst st),
      (snd st)\<lparr>rangeStart := after_removal c (rangeStart (snd st)),
                rangeEnd := after_removal c (rangeEnd (snd st)),
                anchorPoint := after_removal c (anchorPoint (snd st))\<rparr>)"




fun is_element :: "dnode \<Rightarrow> bool" where
  "is_element (DText s) = False"
| "is_element (DElem tag ed cs) = True"

































section \<open>Properties of the history engine\<close>

lemma pushImmediate_after_init:
  assumes "2 \<le> maxDepth" "X \<noteq> Y"
  shows "undoStack (pushImmediate maxDepth t1 Y (init t0 X h)) = [mk_entry X t0, mk_entry Y t1]"
    and "redoStack (pushImmediate maxDepth t1 Y (init t0 X h)) = []"
  using assms
  by (simp_all add: pushImmediate_def push_internal_def init_def mk_entry_def splice0_def Let_def)

text \<open>
  Claim C3, as stated, for a history configured with \<^verbatim>\<open>maxDepth = 1\<close>: after
  \<^verbatim>\<open>init("a")\<close> and \<^verbatim>\<open>pushImmediate("b")\<close> the push trims the stack back to the single
  entry \<^verbatim>\<open>"b"\<close>, so \<^verbatim>\<open>canUndo\<close> is false although the two strings differ.
\<close>

theorem history_scenario_depth_one_counterexample:
  "\<not> canUndo (pushImmediate 1 1 ''b'' (init 0 ''a'' new_history))"
  by (simp add: canUndo_def pushImmediate_def push_internal_def init_def new_history_def
      mk_entry_def splice0_def Let_def)

text \<open>
  Claim C3, amended: when \<^verbatim>\<open>maxDepth\<close> is at least 2 (the default is 100), for any two
  distinct markdown strings X and Y, in any history: after \<^verbatim>\<open>init(X)\<close>, \<^verbatim>\<open>canUndo\<close> is
  false; after a following \<^verbatim>\<open>pushImmediate(Y)\<close>, \<^verbatim>\<open>canUndo\<close> is true and \<^verbatim>\<open>undo()\<close>
  returns an entry whose markdown is X; after that undo, \<^verbatim>\<open>canRedo\<close> is true and
  \<^verbatim>\<open>redo()\<close> returns an entry whose markdown is Y. In every history state,
  \<^verbatim>\<open>undo()\<close> returns null and changes nothing when \<^verbatim>\<open>canUndo\<close> is false, and
  \<^verbatim>\<open>redo()\<close> returns null and changes nothing when \<^verbatim>\<open>canRedo\<close> is false.
\<close>

theorem history_undo_redo_scenario:
  assumes "2 \<le> maxDepth" and "X \<noteq> Y"
  shows "\<not> canUndo (init t0 X h)
       \<and> canUndo (pushImmediate maxDepth t1 Y (init t0 X h))
       \<and> map_option markdown (fst (undo (pushImmediate maxDepth t1 Y (init t0 X h)))) = Some X
       \<and> canRedo (snd (undo (pushImmediate maxDepth t1 Y (init t0 X h))))
       \<and> map_option markdown
            (fst (redo (snd (undo (pushImmediate maxDepth t1 Y (init t0 X h)))))) = Some Y
       \<and> (\<not> canUndo g \<longrightarrow> undo g = (None, g))
       \<and> (\<not> canRedo g \<longrightarrow> redo g = (None, g))"
proof -
  let ?h2 = "pushImmediate maxDepth t1 Y (init t0 X h)"
  have u: "undoStack ?h2 = [mk_entry X t0, mk_entry Y t1]" and r: "redoStack ?h2 = []"
    using pushImmediate_after_init[OF assms] by auto
  have a: "\<not> canUndo (init t0 X h)" by (simp add: canUndo_def init_def)
  have b: "canUndo ?h2" by (simp add: canUndo_def u)
  have c: "map_option markdown (fst (undo ?h2)) = Some X"
    using b by (simp add: undo_def u Let_def mk_entry_def)
  have d: "redoStack (snd (undo ?h2)) = [mk_entry Y t1]"
    using b by (simp add: undo_def u r Let_def)
  have e: "canRedo (snd (undo ?h2))" by (simp add: canRedo_def d)
  have f: "map_option markdown (fst (redo (snd (undo ?h2)))) = Some Y"
    using e by (simp add: redo_def d Let_def mk_entry_def)
  show ?thesis using a b c e f by (simp add: undo_def redo_def)
qed

theorem history_undo_redo_scenario_witness:
  "(2::real) \<le> 100 \<and> ''a'' \<noteq> ''b''
   \<and> \<not> canUndo (init 0 ''a'' new_history)
   \<and> canUndo (pushImmediate 100 1 ''b'' (init 0 ''a'' new_history))
   \<and> map_option markdown
        (fst (undo (pushImmediate 100 1 ''b'' (init 0 ''a'' new_history)))) = Some ''a''
   \<and> canRedo (snd (undo (pushImmediate 100 1 ''b'' (init 0 ''a'' new_history))))
   \<and> map_option markdown
        (fst (redo (snd (undo (pushImmediate 100 1 ''b'' (init 0 ''a'' new_history))))))
       = Some ''b''
   \<and> \<not> canUndo new_history \<and> undo new_history = (None, new_history)
   \<and> \<not> canRedo new_history \<and> redo new_history = (None, new_history)"
proof -
  have h1: "(2::real) \<le> 100" by simp
  have h2: "''a'' \<noteq> ''b''" by simp
  have h3: "\<not> canUndo new_history" by (simp add: canUndo_def new_history_def)
  have h4: "\<not> canRedo new_history" by (simp add: canRedo_def new_history_def)
  show ?thesis
    using history_undo_redo_scenario [OF h1 h2, of 0 new_history 1 new_history] h3 h4 by simp
qed

subsection \<open>The bound on the undo stack\<close>

lemma splice0_integer_depth:
  assumes "real_of_int k < real n" and "0 \<le> k"
  shows "splice0 (real n - real_of_int k) xs = drop (n - nat k) xs"
proof -
  have "\<lfloor>real n - real_of_int k\<rfloor> = int n - k" by linarith
  moreover have "nat (int n - k) = n - nat k" using assms(2) by linarith
  ultimately show ?thesis by (simp add: splice0_def)
qed

lemma push_internal_inv:
  assumes "maxDepth \<in> \<int>" and "1 \<le> maxDepth" and "hist_inv maxDepth h"
  shows "hist_inv maxDepth (push_internal maxDepth now md h)"
proof -
  from assms(1) obtain k where k: "maxDepth = real_of_int k" by (auto elim: Ints_cases)
  with assms(2) have k1: "1 \<le> k" by simp
  show ?thesis
  proof (cases "undoStack h \<noteq> [] \<and> markdown (last (undoStack h)) = md")
    case True
    then show ?thesis using assms(3) by (simp add: push_internal_def)
  next
    case False
    let ?pushed = "undoStack h @ [mk_entry md now]"
    show ?thesis
    proof (cases "real (length ?pushed) > maxDepth")
      case True
      then have lt: "real_of_int k < real (length ?pushed)" by (simp add: k)
      have k0: "0 \<le> k" using k1 by simp
      have "length (splice0 (real (length ?pushed) - maxDepth) ?pushed) \<le> nat k"
        unfolding k splice0_integer_depth[OF lt k0] using k1 by simp
      then have "real (length (splice0 (real (length ?pushed) - maxDepth) ?pushed)) \<le> maxDepth"
        unfolding k using k1 by linarith
      then show ?thesis using False True by (auto simp: hist_inv_def push_internal_def Let_def)
    next
      case no: False
      then show ?thesis using False by (auto simp: hist_inv_def push_internal_def Let_def)
    qed
  qed
qed

lemma push_internal_inv_timer:
  assumes "maxDepth \<in> \<int>" and "1 \<le> maxDepth" and "hist_inv maxDepth h"
  shows "hist_inv maxDepth (push_internal maxDepth now md (h\<lparr>debounceTimer := x\<rparr>))"
  using push_internal_inv[of maxDepth "h\<lparr>debounceTimer := x\<rparr>" now md] assms
  by (simp add: hist_inv_def)

lemma apply_hist_inv:
  assumes i: "maxDepth \<in> \<int>" and d: "1 \<le> maxDepth" and h: "hist_inv maxDepth h"
  shows "hist_inv maxDepth (apply_hist maxDepth x h)"
proof (cases x)
  case (TimerFires now)
  then show ?thesis using push_internal_inv_timer[OF i d h] h
    by (simp add: timer_fires_def split: option.splits)
next
  case (PushImmediate md now)
  then show ?thesis using push_internal_inv_timer[OF i d h]
    by (simp add: pushImmediate_def)
next
  case Redo
  then show ?thesis using h
    by (cases "redoStack h") (auto simp: hist_inv_def redo_def canRedo_def Let_def)
next
  case Undo
  then show ?thesis using h
    by (cases "undoStack h" rule: rev_cases)
       (auto simp: hist_inv_def undo_def canUndo_def Let_def)
qed (use d h in \<open>auto simp: hist_inv_def init_def pushState_def clear_def\<close>)

lemma run_hist_inv:
  "maxDepth \<in> \<int> \<Longrightarrow> 1 \<le> maxDepth \<Longrightarrow> hist_inv maxDepth h \<Longrightarrow>
   hist_inv maxDepth (run_hist maxDepth xs h)"
  by (induction xs arbitrary: h) (simp_all add: apply_hist_inv)

lemma new_history_inv: "1 \<le> maxDepth \<Longrightarrow> hist_inv maxDepth new_history"
  by (simp add: hist_inv_def new_history_def)

text \<open>
  Claim C4, as stated, fails in two ways. For a history configured with
  \<^verbatim>\<open>maxDepth = 0\<close>: \<^verbatim>\<open>init\<close> stores the given state without looking at the bound, so
  after \<^verbatim>\<open>init("a")\<close> the undo stack holds one entry, more than \<^verbatim>\<open>maxDepth\<close>. For a
  history configured with \<^verbatim>\<open>maxDepth = 1.5\<close>: after \<^verbatim>\<open>init("a")\<close> and
  \<^verbatim>\<open>pushImmediate("b")\<close> the stack holds two entries, which exceeds the depth, and
  \<^verbatim>\<open>splice(0, 0.5)\<close> deletes nothing.
\<close>

theorem history_bound_counterexample:
  "\<not> real (length (undoStack (run_hist 0 [Init ''a'' 0] new_history))) \<le> 0
   \<and> \<not> real (length (undoStack
              (run_hist (3 / 2) [Init ''a'' 0, PushImmediate ''b'' 1] new_history))) \<le> 3 / 2"
  by (simp add: init_def pushImmediate_def push_internal_def new_history_def mk_entry_def
      splice0_def Let_def)

text \<open>
  Claim C4, amended: when \<^verbatim>\<open>maxDepth\<close> is an integer and at least 1 (the default is
  100), after every sequence of history operations (init, pushState, the debounce timer
  firing, pushImmediate, undo, redo, clear) on a fresh history the undo stack holds at
  most \<^verbatim>\<open>maxDepth\<close> entries. A push that is not a duplicate of the top leaves the old
  stack with the new entry appended and then cut at the front only: the result is what
  remains after dropping the oldest \<^verbatim>\<open>length + 1 - maxDepth\<close> entries, and its last, most
  recent entry is the one just pushed. A push of the markdown already on top changes
  nothing.
\<close>

theorem history_undo_stack_bounded:
  assumes "maxDepth \<in> \<int>" and "1 \<le> maxDepth"
  shows "real (length (undoStack (run_hist maxDepth ops new_history))) \<le> maxDepth
       \<and> (if undoStack h \<noteq> [] \<and> markdown (last (undoStack h)) = md
           then undoStack (push_internal maxDepth now md h) = undoStack h
           else undoStack (push_internal maxDepth now md h)
                  = drop (Suc (length (undoStack h)) - nat \<lfloor>maxDepth\<rfloor>)
                      (undoStack h @ [mk_entry md now])
              \<and> last (undoStack (push_internal maxDepth now md h)) = mk_entry md now
              \<and> undoStack (push_internal maxDepth now md h) \<noteq> [])"
proof -
  from assms(1) obtain k where k: "maxDepth = real_of_int k" by (auto elim: Ints_cases)
  with assms(2) have k1: "1 \<le> k" by simp
  have "hist_inv maxDepth (run_hist maxDepth ops new_history)"
    using assms run_hist_inv new_history_inv by blast
  then have a: "real (length (undoStack (run_hist maxDepth ops new_history))) \<le> maxDepth"
    by (simp add: hist_inv_def)
  let ?pushed = "undoStack h @ [mk_entry md now]"
  have p: "(if real (length ?pushed) > maxDepth
            then splice0 (real (length ?pushed) - maxDepth) ?pushed else ?pushed)
           = drop (Suc (length (undoStack h)) - nat \<lfloor>maxDepth\<rfloor>) ?pushed"
  proof (cases "real (length ?pushed) > maxDepth")
    case True
    then have lt: "real_of_int k < real (length ?pushed)" by (simp add: k)
    have k0: "0 \<le> k" using k1 by simp
    show ?thesis using True unfolding k splice0_integer_depth[OF lt k0] by simp
  next
    case False
    then have "Suc (length (undoStack h)) \<le> nat \<lfloor>maxDepth\<rfloor>" unfolding k by simp
    then show ?thesis using False by simp
  qed
  have q: "Suc (length (undoStack h)) - nat \<lfloor>maxDepth\<rfloor> \<le> length (undoStack h)"
    unfolding k using k1 by simp
  have b: "undoStack (push_internal maxDepth now md h)
             = drop (Suc (length (undoStack h)) - nat \<lfloor>maxDepth\<rfloor>) ?pushed"
    if "\<not> (undoStack h \<noteq> [] \<and> markdown (last (undoStack h)) = md)"
    by (subst p[symmetric]) (use that in \<open>auto simp: push_internal_def Let_def\<close>)
  have c: "last (drop (Suc (length (undoStack h)) - nat \<lfloor>maxDepth\<rfloor>) ?pushed) = mk_entry md now
           \<and> drop (Suc (length (undoStack h)) - nat \<lfloor>maxDepth\<rfloor>) ?pushed \<noteq> []"
    using q by simp
  show ?thesis
  proof (cases "undoStack h \<noteq> [] \<and> markdown (last (undoStack h)) = md")
    case True
    then show ?thesis using a by (simp add: push_internal_def)
  next
    case False
    have e: "undoStack (push_internal maxDepth now md h)
               = drop (Suc (length (undoStack h)) - nat \<lfloor>maxDepth\<rfloor>) ?pushed
           \<and> last (undoStack (push_internal maxDepth now md h)) = mk_entry md now
           \<and> undoStack (push_internal maxDepth now md h) \<noteq> []"
      unfolding b[OF False] using c by blast
    show ?thesis unfolding if_not_P[OF False] using a e by blast
  qed
qed

theorem history_undo_stack_bounded_witness:
  "(2::real) \<in> \<int> \<and> (1::real) \<le> 2
   \<and> real (length (undoStack (run_hist 2
        [Init ''a'' 0, PushImmediate ''b'' 1, PushState ''c'', TimerFires 2, Undo, Redo]
        new_history))) \<le> 2
   \<and> undoStack (push_internal 2 3 ''c''
        (run_hist 2 [Init ''a'' 0, PushImmediate ''b'' 1] new_history))
       = [mk_entry ''b'' 1, mk_entry ''c'' 3]"
proof -
  have h0: "(2::real) \<in> \<int>" by simp
  have h1: "(1::real) \<le> 2" by simp
  have e: "undoStack (run_hist 2 [Init ''a'' 0, PushImmediate ''b'' 1] new_history)
             = [mk_entry ''a'' 0, mk_entry ''b'' 1]"
    by (simp add: init_def pushImmediate_def push_internal_def new_history_def mk_entry_def
        splice0_def Let_def)
  show ?thesis
    using history_undo_stack_bounded [OF h0 h1,
        of "[Init ''a'' 0, PushImmediate ''b'' 1, PushState ''c'', TimerFires 2, Undo, Redo]"
        "run_hist 2 [Init ''a'' 0, PushImmediate ''b'' 1] new_history" "''c''" 3] e h0
    by (simp add: mk_entry_def)
qed

subsection \<open>Undo followed by redo\<close>

text \<open>
  Claim C9: whenever \<^verbatim>\<open>canUndo\<close> holds, \<^verbatim>\<open>undo()\<close> followed by \<^verbatim>\<open>redo()\<close> gives back
  the state before the undo, both stacks included. The undo moves exactly the top entry
  of the undo stack, unchanged, onto the redo stack; the entries of the two stacks
  together form the same multiset before and after; and the redo returns precisely the
  entry the undo moved.
\<close>

theorem history_undo_then_redo:
  assumes "canUndo h"
  shows "snd (redo (snd (undo h))) = h
       \<and> undoStack (snd (undo h)) = butlast (undoStack h)
       \<and> redoStack (snd (undo h)) = redoStack h @ [last (undoStack h)]
       \<and> fst (redo (snd (undo h))) = Some (last (undoStack h))
       \<and> mset (undoStack (snd (undo h))) + mset (redoStack (snd (undo h)))
           = mset (undoStack h) + mset (redoStack h)"
proof -
  from assms have ne: "undoStack h \<noteq> []" by (auto simp: canUndo_def)
  have m: "mset (butlast (undoStack h)) + {#last (undoStack h)#} = mset (undoStack h)"
    using ne
    by (metis append_butlast_last_id mset.simps(1) mset.simps(2) mset_append
        add_mset_add_single)
  show ?thesis using assms ne m
    by (simp add: undo_def redo_def canUndo_def canRedo_def Let_def)
qed

theorem history_undo_then_redo_witness:
  "canUndo \<lparr>undoStack = [mk_entry ''a'' 0, mk_entry ''b'' 1], redoStack = [],
             debounceTimer = None\<rparr>
   \<and> snd (redo (snd (undo \<lparr>undoStack = [mk_entry ''a'' 0, mk_entry ''b'' 1], redoStack = [],
                            debounceTimer = None\<rparr>)))
       = \<lparr>undoStack = [mk_entry ''a'' 0, mk_entry ''b'' 1], redoStack = [],
          debounceTimer = None\<rparr>
   \<and> fst (redo (snd (undo \<lparr>undoStack = [mk_entry ''a'' 0, mk_entry ''b'' 1], redoStack = [],
                            debounceTimer = None\<rparr>)))
       = Some (mk_entry ''b'' 1)"
proof -
  have h: "canUndo \<lparr>undoStack = [mk_entry ''a'' 0, mk_entry ''b'' 1], redoStack = [],
                    debounceTimer = None\<rparr>"
    by (simp add: canUndo_def)
  show ?thesis using history_undo_then_redo [OF h] h by simp
qed

section \<open>Properties of the heading slug\<close>

lemma replace_runs_squeeze: "replace_runs P [r] s = squeeze_runs P r s"
  by (induction P r s rule: squeeze_runs.induct) auto

lemma set_replace_runs:
  "set (replace_runs P rep s) \<subseteq> set rep \<union> {c \<in> set s. \<not> P c}"
proof (induction P rep s rule: replace_runs.induct)
  case (1 P rep)
  then show ?case by simp
next
  case (2 P rep c cs)
  show ?case
  proof (cases "P c")
    case True
    with 2 have "set (replace_runs P rep (dropWhile P cs))
                   \<subseteq> set rep \<union> {c \<in> set (dropWhile P cs). \<not> P c}" by simp
    moreover have "set (dropWhile P cs) \<subseteq> set cs" by (auto dest: set_dropWhileD)
    ultimately show ?thesis using True by auto
  next
    case False
    with 2 show ?thesis by auto
  qed
qed

lemma hd_replace_runs:
  "s \<noteq> [] \<Longrightarrow> \<not> P (hd s) \<Longrightarrow> replace_runs P rep s = hd s # replace_runs P rep (tl s)"
  by (cases s) auto

lemma dropWhile_head: "dropWhile P cs = [] \<or> \<not> P (hd (dropWhile P cs))"
  by (metis hd_dropWhile)

lemma no_double_hyphen_collapse:
  "no_double_hyphen (replace_runs (\<lambda>c. c = CHR ''-'') ''-'' s)"
proof (induction "\<lambda>c. c = CHR ''-''" "''-''" s rule: replace_runs.induct)
  case 1
  then show ?case by simp
next
  case (2 c cs)
  show ?case
  proof (cases "c = CHR ''-''")
    case True
    let ?d = "dropWhile (\<lambda>c. c = CHR ''-'') cs"
    from 2 True have ih: "no_double_hyphen (replace_runs (\<lambda>c. c = CHR ''-'') ''-'' ?d)" by simp
    have step: "replace_runs (\<lambda>c. c = CHR ''-'') ''-'' (c # cs)
                  = CHR ''-'' # replace_runs (\<lambda>c. c = CHR ''-'') ''-'' ?d"
      using True by simp
    show ?thesis
    proof (cases "?d = []")
      case True
      then have "replace_runs (\<lambda>c. c = CHR ''-'') ''-'' ?d = []"
        by (simp only: replace_runs.simps)
      with step show ?thesis by (simp only: no_double_hyphen.simps)
    next
      case False
      then have nh: "hd ?d \<noteq> CHR ''-''" using dropWhile_head[of "\<lambda>c. c = CHR ''-''" cs] by auto
      from hd_replace_runs[of ?d "\<lambda>c. c = CHR ''-''" "''-''"] False nh
      have "replace_runs (\<lambda>c. c = CHR ''-'') ''-'' ?d
              = hd ?d # replace_runs (\<lambda>c. c = CHR ''-'') ''-'' (tl ?d)" by simp
      with ih nh step show ?thesis by (simp only: no_double_hyphen.simps) simp
    qed
  next
    case False
    with 2 have ih: "no_double_hyphen (replace_runs (\<lambda>c. c = CHR ''-'') ''-'' cs)" by simp
    from False ih show ?thesis
      by (cases "replace_runs (\<lambda>c. c = CHR ''-'') ''-'' cs") auto
  qed
qed

lemma lower_char_word:
  "js_word (lower_char c) \<Longrightarrow> slug_char (lower_char c)"
  by (auto simp: js_word_def lower_char_def slug_char_def Let_def split: if_splits)

lemma js_trim_subset: "set (js_trim s) \<subseteq> set s"
  by (auto simp: js_trim_def dest!: set_dropWhileD)

lemma slug_chars: "c \<in> set (slugify text) \<Longrightarrow> slug_char c"
proof -
  let ?f = "filter (\<lambda>c. js_word c \<or> js_space c \<or> c = CHR ''-'') (js_trim (toLowerCase text))"
  let ?w = "replace_runs js_space ''-'' ?f"
  assume "c \<in> set (slugify text)"
  then have "c \<in> set (replace_runs (\<lambda>c. c = CHR ''-'') ''-'' ?w)" by (simp add: slugify_def)
  then have "c = CHR ''-'' \<or> c \<in> set ?w"
    using set_replace_runs[of "\<lambda>c. c = CHR ''-''" "''-''" ?w] by auto
  then have "c = CHR ''-'' \<or> (c \<in> set ?f \<and> \<not> js_space c)"
    using set_replace_runs[of js_space "''-''" ?f] by auto
  then have "c = CHR ''-'' \<or> (js_word c \<and> c \<in> set (js_trim (toLowerCase text)))" by auto
  then have "c = CHR ''-'' \<or> (js_word c \<and> c \<in> set (toLowerCase text))"
    using js_trim_subset by blast
  then show ?thesis
    by (auto simp: toLowerCase_def lower_char_word) (simp add: slug_char_def)
qed

text \<open>
  Claim C6: the slug is a function of the heading text alone (\<^verbatim>\<open>slugify\<close> reads nothing
  else, so identical text gives an identical slug), equal to: lower case, then trim, then
  delete every character that is not a word character, white space or a hyphen, then
  replace each white space run by a single hyphen, then collapse consecutive hyphens into
  one. \<^verbatim>\<open>slugify("Hello, World!")\<close> is \<^verbatim>\<open>"hello-world"\<close> and
  \<^verbatim>\<open>slugify("  multiple   spaces ")\<close> is \<^verbatim>\<open>"multiple-spaces"\<close>. Every slug consists of
  lower case letters, digits, underscores and hyphens, with no two hyphens in a row.
\<close>

theorem slugify_is_spec_pipeline:
  "slugify text = spec_slug text
   \<and> slugify ''Hello, World!'' = ''hello-world''
   \<and> slugify ''  multiple   spaces '' = ''multiple-spaces''
   \<and> list_all slug_char (slugify text)
   \<and> no_double_hyphen (slugify text)"
proof -
  have a: "slugify text = spec_slug text"
    by (simp add: slugify_def spec_slug_def replace_runs_squeeze)
  have b: "slugify ''Hello, World!'' = ''hello-world''" by code_simp
  have c: "slugify ''  multiple   spaces '' = ''multiple-spaces''" by code_simp
  have d: "list_all slug_char (slugify text)" using slug_chars by (auto simp: list_all_iff)
  have e: "no_double_hyphen (slugify text)"
    unfolding slugify_def by (rule no_double_hyphen_collapse)
  from a b c d e show ?thesis by blast
qed


section \<open>Properties of the table serialization\<close>

lemma trimTrailingNewlines_line:
  "u \<noteq> [] \<Longrightarrow> last u \<noteq> nl \<Longrightarrow> trimTrailingNewlines (u @ [nl]) = u"
proof -
  assume a: "u \<noteq> []" "last u \<noteq> nl"
  then have "rev u \<noteq> []" "hd (rev u) \<noteq> nl" by (auto simp: hd_rev)
  then have "dropWhile (\<lambda>c. c = nl) (rev u) = rev u" by (cases "rev u") auto
  then show ?thesis by (simp add: trimTrailingNewlines_def)
qed

lemma trimLeadingNewlines_line:
  "x = [] \<or> hd x \<noteq> nl \<Longrightarrow> trimLeadingNewlines x = x"
  by (cases x) (auto simp: trimLeadingNewlines_def)

lemma td_join_Nil_left: "x = [] \<or> hd x \<noteq> nl \<Longrightarrow> td_join [] x = x"
  by (simp add: td_join_def trimLeadingNewlines_line trimTrailingNewlines_def Let_def)

lemma td_join_line:
  assumes "line_block a" and "x = [] \<or> hd x \<noteq> nl"
  shows "td_join a x = a @ x"
proof -
  from assms(1) obtain u where u: "a = u @ [nl]" "u \<noteq> []" "last u \<noteq> nl"
    by (auto simp: line_block_def)
  have "trimTrailingNewlines a = u" using u trimTrailingNewlines_line by simp
  moreover have "trimLeadingNewlines x = x" using assms(2) by (rule trimLeadingNewlines_line)
  ultimately show ?thesis using u by (simp add: td_join_def Let_def)
qed

lemma line_block_append: "line_block a \<Longrightarrow> line_block b \<Longrightarrow> line_block (a @ b)"
proof -
  assume "line_block a" "line_block b"
  then obtain u v where u: "a = u @ [nl]" "u \<noteq> []" "hd u \<noteq> nl"
    and v: "b = v @ [nl]" "v \<noteq> []" "last v \<noteq> nl"
    by (auto simp: line_block_def)
  have "a @ b = (u @ [nl] @ v) @ [nl]" using u v by simp
  moreover have "hd (u @ [nl] @ v) \<noteq> nl" using u by simp
  moreover have "last (u @ [nl] @ v) \<noteq> nl" using v by simp
  ultimately show ?thesis unfolding line_block_def by blast
qed

lemma line_block_hd: "line_block a \<Longrightarrow> hd a \<noteq> nl"
  by (auto simp: line_block_def)

lemma foldl_td_join_lines:
  assumes "acc = [] \<or> line_block acc" and "\<forall>x\<in>set xs. x = [] \<or> line_block x"
  shows "foldl td_join acc xs = acc @ concat xs
         \<and> (acc @ concat xs = [] \<or> line_block (acc @ concat xs))"
  using assms
proof (induction xs arbitrary: acc)
  case Nil
  then show ?case by simp
next
  case (Cons x xs)
  have x: "x = [] \<or> line_block x" using Cons.prems(2) by simp
  then have hx: "x = [] \<or> hd x \<noteq> nl" using line_block_hd by blast
  have j: "td_join acc x = acc @ x"
    using Cons.prems(1) hx td_join_Nil_left td_join_line by auto
  have g: "acc @ x = [] \<or> line_block (acc @ x)"
    using Cons.prems(1) x line_block_append by auto
  from Cons.IH[of "acc @ x"] g Cons.prems(2) j show ?case by simp
qed

lemma process_lines:
  "\<forall>x\<in>set xs. x = [] \<or> line_block x \<Longrightarrow>
   process xs = concat xs \<and> (concat xs = [] \<or> line_block (concat xs))"
  using foldl_td_join_lines[of "[]" xs] by (simp add: process_def)

lemma bar_join:
  "xs \<noteq> [] \<Longrightarrow> ''|'' @ js_join ''|'' (map f xs) = concat (map (\<lambda>c. ''|'' @ f c) xs)"
proof (induction xs)
  case Nil
  then show ?case by simp
next
  case (Cons a xs)
  then show ?case by (cases xs) auto
qed

lemma cells_filter: "filter (\<lambda>c. cellTag c = TH \<or> cellTag c = TD) row = row"
proof -
  have "\<forall>c\<in>set row. cellTag c = TH \<or> cellTag c = TD"
    by (metis cell_tag.exhaust)
  then show ?thesis by (simp add: filter_id_conv)
qed

lemma tableRow_rule_line:
  assumes "row \<noteq> []"
  shows "tableRow_rule turndown row = spec_row_line (cellContent turndown) row @ [nl]"
proof -
  have "''|'' @ js_join ''|'' (map (\<lambda>c. '' '' @ cellContent turndown c @ '' '') row)
          = concat (map (\<lambda>c. ''|'' @ '' '' @ cellContent turndown c @ '' '') row)"
    using bar_join[OF assms] by blast
  then show ?thesis
    by (simp add: tableRow_rule_def cells_filter spec_row_line_def Let_def)
qed

lemma separator_line:
  assumes "row \<noteq> []"
  shows "''|'' @ js_join ''|'' (map (\<lambda>_. '' --- '') row) @ ''|'' @ [nl]
           = spec_separator_line (length row) @ [nl]"
proof -
  have "''|'' @ js_join ''|'' (map (\<lambda>_. '' --- '') row)
          = concat (map (\<lambda>c. ''|'' @ '' --- '') row)"
    using bar_join[OF assms, of "\<lambda>_. '' --- ''"] by blast
  moreover have "map (\<lambda>c. ''|'' @ '' --- '') row = replicate (length row) ''| --- ''"
    by (simp add: map_replicate_const)
  ultimately show ?thesis by (simp add: spec_separator_line_def)
qed

lemma spec_row_line_block:
  assumes "row \<noteq> []"
  shows "line_block (spec_row_line cc row @ [nl])"
proof -
  obtain c cs where r: "row = c # cs" using assms by (cases row) auto
  have "spec_row_line cc row \<noteq> []" by (simp add: spec_row_line_def)
  moreover have "hd (spec_row_line cc row) \<noteq> nl" using r by (simp add: spec_row_line_def)
  moreover have "last (spec_row_line cc row) \<noteq> nl" by (simp add: spec_row_line_def)
  ultimately show ?thesis unfolding line_block_def by blast
qed

lemma spec_separator_block: "line_block (spec_separator_line n @ [nl])"
proof -
  have "spec_separator_line n \<noteq> []" by (simp add: spec_separator_line_def)
  moreover have "hd (spec_separator_line n) \<noteq> nl"
    by (cases n) (simp_all add: spec_separator_line_def)
  moreover have "last (spec_separator_line n) \<noteq> nl" by (simp add: spec_separator_line_def)
  ultimately show ?thesis unfolding line_block_def by blast
qed

lemma cellContent_no_newline: "nl \<notin> set (cellContent turndown c)"
proof -
  have "nl \<notin> set (map (\<lambda>c. if c = nl then CHR '' '' else c) (turndown (childNodes c)))"
    by auto
  then show ?thesis using js_trim_subset unfolding cellContent_def by blast
qed

lemma js_trim_trimmed: "trimmed (js_trim s)"
proof (cases "js_trim s = []")
  case True
  then show ?thesis by (simp add: trimmed_def)
next
  case False
  let ?a = "dropWhile js_space s"
  let ?b = "dropWhile js_space (rev ?a)"
  from False have b: "?b \<noteq> []" by (simp add: js_trim_def)
  then have hb: "\<not> js_space (hd ?b)" by (metis hd_dropWhile)
  have l: "last (js_trim s) = hd ?b" using b by (simp add: js_trim_def last_rev)
  have a: "?a \<noteq> []"
  proof
    assume "?a = []"
    then have "?b = []" by (simp only: rev.simps dropWhile.simps)
    with b show False by contradiction
  qed
  then have ha: "\<not> js_space (hd ?a)" by (metis hd_dropWhile)
  have "hd (js_trim s) = last ?b" using b by (simp add: js_trim_def hd_rev)
  also have "\<dots> = last (rev ?a)"
  proof -
    obtain p where "rev ?a = p @ ?b" by (metis takeWhile_dropWhile_id)
    then show ?thesis using b by (metis last_appendR)
  qed
  also have "\<dots> = hd ?a" using a by (simp add: last_rev)
  finally show ?thesis using ha hb l False by (simp add: trimmed_def)
qed

lemma concat_map_concat:
  "concat (map (\<lambda>s. concat (map f (g s))) xs) = concat (concat (map (\<lambda>s. map f (g s)) xs))"
  by (induction xs) auto

lemma body_section_lines:
  assumes "sectionTag s = TBODY" and "[] \<notin> set (rows s)"
  shows "section_replacement turndown s
           = concat (map (\<lambda>r. spec_row_line (cellContent turndown) r @ [nl]) (rows s))
         \<and> (section_replacement turndown s = [] \<or> line_block (section_replacement turndown s))"
proof -
  let ?cc = "cellContent turndown"
  have m: "map (row_replacement turndown) (rows s)
             = map (\<lambda>r. spec_row_line ?cc r @ [nl]) (rows s)"
    using assms(2) by (auto simp: row_replacement_def tableRow_rule_line)
  have "\<forall>x\<in>set (map (\<lambda>r. spec_row_line ?cc r @ [nl]) (rows s)). x = [] \<or> line_block x"
  proof (intro ballI)
    fix x assume "x \<in> set (map (\<lambda>r. spec_row_line ?cc r @ [nl]) (rows s))"
    then obtain r where r: "r \<in> set (rows s)" "x = spec_row_line ?cc r @ [nl]" by auto
    then have "r \<noteq> []" using assms(2) by auto
    then have "line_block x" using spec_row_line_block[of r ?cc] r by simp
    then show "x = [] \<or> line_block x" ..
  qed
  note pl = process_lines[OF this]
  have sr: "section_replacement turndown s = process (map (row_replacement turndown) (rows s))"
    using assms(1) by (simp add: section_replacement_def tableBody_rule_def Let_def)
  show ?thesis unfolding sr m using pl by simp
qed

lemma head_section_lines:
  assumes "h \<noteq> []"
  shows "section_replacement turndown \<lparr>sectionTag = THEAD, rows = [h]\<rparr>
           = (spec_row_line (cellContent turndown) h @ [nl])
             @ (spec_separator_line (length h) @ [nl])"
proof -
  let ?cc = "cellContent turndown"
  have l: "line_block (spec_row_line ?cc h @ [nl])"
    using spec_row_line_block[OF assms, of ?cc] .
  have p: "process [row_replacement turndown h] = spec_row_line ?cc h @ [nl]"
    using process_lines[of "[spec_row_line ?cc h @ [nl]]"] l assms
    by (simp add: row_replacement_def tableRow_rule_line)
  show ?thesis
    using p separator_line[OF assms]
    by (simp add: section_replacement_def tableHead_rule_def cells_filter Let_def)
qed

text \<open>
  Claim C5, as stated, on a table without a header section (a body section with the rows
  \<^verbatim>\<open>a b\<close> and \<^verbatim>\<open>1 2\<close>, as pasted from a spreadsheet): the separator line is written
  by the rule of the header section only, so the serialization has the two row lines and
  no separator line after the first row.
\<close>

theorem table_without_thead_counterexample:
  "table_replacement plain_text pasted_table
     = [nl, nl] @ ''| a | b |'' @ [nl] @ ''| 1 | 2 |'' @ [nl, nl]
   \<and> spec_table (cellContent plain_text) pasted_table
     = [nl, nl] @ ''| a | b |'' @ [nl] @ ''| --- | --- |'' @ [nl] @ ''| 1 | 2 |'' @ [nl, nl]
   \<and> table_replacement plain_text pasted_table
     \<noteq> spec_table (cellContent plain_text) pasted_table"
  by code_simp

text \<open>
  Claim C5, amended: for a table made of a header section with exactly one row, followed
  by body sections only, every row having at least one cell, the serialization is: a
  blank line, the line \<^verbatim>\<open>| cell | cell |\<close> of the header row, one separator line with one
  \<^verbatim>\<open>---\<close> per cell of the header row, the line of every body row in order, and a blank
  line. The content of each cell in these lines is the cell's serialized content with
  every newline replaced by a space, trimmed: it holds no newline and neither starts nor
  ends with white space.
\<close>

theorem table_serialization:
  assumes shape: "t = \<lparr>sectionTag = THEAD, rows = [h]\<rparr> # bodies"
    and bodies: "\<forall>s\<in>set bodies. sectionTag s = TBODY \<and> [] \<notin> set (rows s)"
    and h: "h \<noteq> []"
  shows "table_replacement turndown t = spec_table (cellContent turndown) t
       \<and> nl \<notin> set (cellContent turndown c)
       \<and> trimmed (cellContent turndown c)
       \<and> cellContent turndown c
           = js_trim (map (\<lambda>x. if x = nl then CHR '' '' else x) (turndown (childNodes c)))"
proof -
  let ?cc = "cellContent turndown"
  let ?line = "\<lambda>r. spec_row_line ?cc r @ [nl]"
  let ?head = "?line h @ (spec_separator_line (length h) @ [nl])"
  have hd1: "line_block ?head"
    using line_block_append[OF spec_row_line_block[OF h, of ?cc] spec_separator_block] .
  have bs: "map (section_replacement turndown) bodies
              = map (\<lambda>s. concat (map ?line (rows s))) bodies"
    using bodies body_section_lines by simp
  have "\<forall>s\<in>set bodies. section_replacement turndown s = []
            \<or> line_block (section_replacement turndown s)"
    using bodies body_section_lines by blast
  then have "\<forall>x\<in>set (map (section_replacement turndown) bodies). x = [] \<or> line_block x"
    by (simp only: set_map ball_simps)
  with hd1 have good:
    "\<forall>x\<in>set (?head # map (section_replacement turndown) bodies). x = [] \<or> line_block x"
    by (simp only: set_simps ball_simps) blast
  have "process (map (section_replacement turndown) t)
          = concat (?head # map (section_replacement turndown) bodies)"
    using process_lines[OF good] shape head_section_lines[OF h] by simp
  also have "\<dots> = ?head @ concat (map ?line (concat (map rows bodies)))"
    by (simp add: bs map_concat comp_def concat_map_concat)
  finally have p: "process (map (section_replacement turndown) t)
                     = ?head @ concat (map ?line (concat (map rows bodies)))" .
  have ar: "all_rows t = h # concat (map rows bodies)" using shape by (simp add: all_rows_def)
  have "spec_table ?cc t = [nl, nl] @ (?head @ concat (map ?line (concat (map rows bodies)))) @ [nl]"
    by (simp add: spec_table_def spec_table_lines_def ar comp_def)
  with p have a: "table_replacement turndown t = spec_table ?cc t"
    by (simp add: table_replacement_def table_rule_def)
  show ?thesis using a cellContent_no_newline js_trim_trimmed
    by (simp add: cellContent_def)
qed


theorem table_serialization_witness:
  "table_replacement plain_text gfm_table
     = [nl, nl] @ ''| A | B |'' @ [nl] @ ''| --- | --- |'' @ [nl] @ ''| 1 | 2 |'' @ [nl, nl]
   \<and> cellContent plain_text (td ('' x'' @ [nl] @ ''y  '')) = ''x y''"
proof -
  have shape: "gfm_table = \<lparr>sectionTag = THEAD, rows = [[th ''A'', th ''B'']]\<rparr>
                 # [\<lparr>sectionTag = TBODY, rows = [[td ''1'', td ''2'']]\<rparr>]"
    by (simp add: gfm_table_def)
  have bodies: "\<forall>s\<in>set [\<lparr>sectionTag = TBODY, rows = [[td ''1'', td ''2'']]\<rparr>].
                  sectionTag s = TBODY \<and> [] \<notin> set (rows s)"
    by simp
  have h: "[th ''A'', th ''B''] \<noteq> []" by simp
  have e: "spec_table (cellContent plain_text) gfm_table
     = [nl, nl] @ ''| A | B |'' @ [nl] @ ''| --- | --- |'' @ [nl] @ ''| 1 | 2 |'' @ [nl, nl]"
    by code_simp
  have c: "js_trim (map (\<lambda>x. if x = nl then CHR '' '' else x)
             (plain_text (childNodes (td ('' x'' @ [nl] @ ''y  ''))))) = ''x y''"
    by code_simp
  show ?thesis
    using table_serialization [OF shape bodies h, of plain_text "td ('' x'' @ [nl] @ ''y  '')"] e c
    by simp
qed


section \<open>Properties of cross-cell detection\<close>

lemma walkUpToCell_Some:
  "walkUpToCell chain = Some c \<Longrightarrow>
   c \<in> set chain \<and> isElement c \<and> (tagName c = ''TD'' \<or> tagName c = ''TH'')"
  by (induction chain) (auto split: if_splits)

text \<open>
  Claim C1, as stated, for a collapsed selection (a caret) whose container is the table
  row itself: the common ancestor resolves to no cell and lies inside the table, and
  neither the start nor the end resolves to a cell, so the four-branch procedure answers
  cross-cell; \<^verbatim>\<open>isSelectionCrossCell\<close> returns false at its first line because the
  selection is collapsed.
\<close>

theorem collapsed_selection_counterexample:
  "ranges caret_at_row \<noteq> []
   \<and> spec_four_branch (hd (ranges caret_at_row))
   \<and> \<not> isSelectionCrossCell (Some caret_at_row)"
  by (simp add: caret_at_row_def at_row_def elem_def editor_root_def spec_four_branch_def
      isSelectionCrossCell_def)

text \<open>
  Claim C1, amended: for every selection that has a range and is not collapsed,
  \<^verbatim>\<open>isSelectionCrossCell()\<close> decides by the four-branch procedure on its first range: if
  the common ancestor container ascends to a table cell (TD/TH) the result is false;
  otherwise, if the common ancestor is not inside any table, false; otherwise the start
  and end containers are resolved to cells independently, and two distinct cells give
  true, exactly one side resolving gives false, and neither side resolving gives true.
  For an absent selection, one without a range, or a collapsed one, the result is false.
  A container resolves to a cell only if that cell is a TD or TH element among its
  ancestors or itself.
\<close>

theorem cross_cell_decision:
  assumes "ranges s \<noteq> []" and "\<not> isCollapsed s"
  shows "isSelectionCrossCell (Some s) = spec_four_branch (hd (ranges s))
       \<and> (ranges s' = [] \<or> isCollapsed s' \<longrightarrow> \<not> isSelectionCrossCell (Some s'))
       \<and> \<not> isSelectionCrossCell None
       \<and> (walkUpToCell chain = Some c \<longrightarrow>
            c \<in> set chain \<and> isElement c \<and> (tagName c = ''TD'' \<or> tagName c = ''TH''))"
proof -
  have a: "isSelectionCrossCell (Some s) = spec_four_branch (hd (ranges s))"
    using assms
    by (auto simp: isSelectionCrossCell_def spec_four_branch_def Let_def split: option.splits)
  have b: "ranges s' = [] \<or> isCollapsed s' \<longrightarrow> \<not> isSelectionCrossCell (Some s')"
    by (simp add: isSelectionCrossCell_def)
  have c: "\<not> isSelectionCrossCell None" by (simp add: isSelectionCrossCell_def)
  from a b c walkUpToCell_Some show ?thesis by blast
qed

theorem cross_cell_decision_witness:
  "ranges two_cells_selected \<noteq> [] \<and> \<not> isCollapsed two_cells_selected
   \<and> isSelectionCrossCell (Some two_cells_selected)
   \<and> spec_four_branch (hd (ranges two_cells_selected))
   \<and> isCollapsed caret_at_row \<and> \<not> isSelectionCrossCell (Some caret_at_row)
   \<and> walkUpToCell in_cell_a = Some (elem 4 ''TD'')"
proof -
  have h1: "ranges two_cells_selected \<noteq> []" by (simp add: two_cells_selected_def)
  have h2: "\<not> isCollapsed two_cells_selected" by (simp add: two_cells_selected_def)
  have h3: "spec_four_branch (hd (ranges two_cells_selected))"
    by (simp add: two_cells_selected_def spec_four_branch_def at_row_def in_cell_a_def in_cell_b_def
        elem_def text_node_def editor_root_def same_node_def)
  have h4: "isCollapsed caret_at_row" by (simp add: caret_at_row_def)
  have h5: "walkUpToCell in_cell_a = Some (elem 4 ''TD'')"
    by (simp add: in_cell_a_def elem_def text_node_def)
  show ?thesis
    using cross_cell_decision [OF h1 h2, of caret_at_row in_cell_a "elem 4 ''TD''"] h1 h2 h3 h4 h5 by simp
qed


section \<open>Properties of the sanitizer\<close>

text \<open>
  Claim C7 asks that the output of \<^verbatim>\<open>sanitizeHtml\<close> never contains a script or style
  element. On the input \<^verbatim>\<open><svg><script>alert(1)</script></svg>\<close> the script element is
  in the SVG namespace, its \<^verbatim>\<open>tagName\<close> is \<^verbatim>\<open>script\<close> in lower case, the set
  \<^verbatim>\<open>REMOVE_WITH_CONTENT\<close> holds \<^verbatim>\<open>SCRIPT\<close> in upper case only, and the element stays,
  content included. The same happens to \<^verbatim>\<open><svg><style>\<close>.
\<close>

theorem sanitizeHtml_keeps_svg_script:
  "sanitizeHtml svg_script = svg_script \<and> \<not> list_all spec_safe_node (sanitizeHtml svg_script)
   \<and> sanitizeHtml svg_style = svg_style \<and> \<not> list_all spec_safe_node (sanitizeHtml svg_style)"
  by code_simp

text \<open>
  On trees of HTML elements only (without forms that shadow node properties and without
  templates, which the model leaves out), the functions above do what the claim asks: the
  cleaned tree holds none of the listed elements and only safe attributes.
\<close>

lemma clean_attributes_subset:
  "set (fold (\<lambda>attr current. if attr_removed attr then removeAttribute (fst attr) current
                           else current) xs cur) \<subseteq> set cur"
proof (induction xs arbitrary: cur)
  case Nil
  then show ?case by simp
next
  case (Cons x xs)
  let ?c = "if attr_removed x then removeAttribute (fst x) cur else cur"
  have "set ?c \<subseteq> set cur" by (auto simp: removeAttribute_def)
  with Cons[of ?c] show ?case by auto
qed

lemma fold_removes:
  "a \<in> set xs \<Longrightarrow> attr_removed a \<Longrightarrow>
   fst a \<notin> fst ` set (fold (\<lambda>attr current. if attr_removed attr
                                 then removeAttribute (fst attr) current else current) xs cur)"
proof (induction xs arbitrary: cur)
  case Nil
  then show ?case by simp
next
  case (Cons x xs)
  show ?case
  proof (cases "a = x")
    case True
    have "fst a \<notin> fst ` set (removeAttribute (fst a) cur)"
      by (auto simp: removeAttribute_def)
    then show ?thesis
      using True Cons.prems(2) clean_attributes_subset[of xs "removeAttribute (fst a) cur"]
      by auto
  next
    case False
    then show ?thesis using Cons by simp
  qed
qed

lemma attr_kept_safe: "\<not> attr_removed a \<Longrightarrow> spec_safe_attr a"
  by (auto simp: attr_removed_def spec_safe_attr_def Let_def split: if_splits)

lemma clean_attributes_safe: "list_all spec_safe_attr (clean_attributes attrs)"
proof -
  have "spec_safe_attr b" if "b \<in> set (clean_attributes attrs)" for b
  proof -
    from that have m: "b \<in> set attrs"
      using clean_attributes_subset[of attrs attrs] by (auto simp: clean_attributes_def)
    have "\<not> attr_removed b"
    proof
      assume "attr_removed b"
      from fold_removes[OF m this, of attrs] that show False
        by (auto simp: clean_attributes_def)
    qed
    then show ?thesis by (rule attr_kept_safe)
  qed
  then show ?thesis by (simp add: list_all_iff)
qed

lemma forbidden_removed:
  "localName \<in> set forbidden_elements \<Longrightarrow>
   element_tagName HTML_NS localName \<in> set REMOVE_WITH_CONTENT"
proof -
  have "list_all (\<lambda>n. element_tagName HTML_NS n \<in> set REMOVE_WITH_CONTENT) forbidden_elements"
    by code_simp
  then show "localName \<in> set forbidden_elements \<Longrightarrow>
    element_tagName HTML_NS localName \<in> set REMOVE_WITH_CONTENT"
    by (simp add: list_all_iff)
qed

lemma clean_child_safe: "html_only n \<Longrightarrow> list_all spec_safe_node (clean_child n)"
proof (induction n rule: clean_child.induct)
  case (1 ns localName attrs children)
  show ?case
  proof (cases "element_tagName ns localName \<in> set REMOVE_WITH_CONTENT")
    case True
    then show ?thesis by simp
  next
    case False
    from 1 have ns: "ns = HTML_NS" by simp
    have a: "localName \<notin> set forbidden_elements" using False ns forbidden_removed by auto
    have "list_all spec_safe_node (clean_child c)" if "c \<in> set children" for c
      using 1 False that by (auto simp: list_all_iff)
    then have b: "list_all spec_safe_node (concat (map clean_child children))"
      by (auto simp: list_all_iff)
    show ?thesis using False a b clean_attributes_safe by simp
  qed
qed simp_all

lemma sanitizeHtml_html_only:
  "list_all html_only body \<Longrightarrow> list_all spec_safe_node (sanitizeHtml body)"
  using clean_child_safe by (auto simp: sanitizeHtml_def cleanNode_def list_all_iff)

text \<open>On every tree of the model, every attribute left in the cleaned tree is a safe one.\<close>

lemma clean_child_safe_attrs: "list_all spec_safe_attrs_node (clean_child n)"
proof (induction n rule: clean_child.induct)
  case (1 ns localName attrs children)
  show ?case
  proof (cases "element_tagName ns localName \<in> set REMOVE_WITH_CONTENT")
    case True
    then show ?thesis by simp
  next
    case False
    have "list_all spec_safe_attrs_node (clean_child c)" if "c \<in> set children" for c
      using 1 False that by simp
    then have b: "list_all spec_safe_attrs_node (concat (map clean_child children))"
      by (auto simp: list_all_iff)
    show ?thesis using False b clean_attributes_safe by simp
  qed
qed simp_all

lemma sanitizeHtml_safe_attrs: "list_all spec_safe_attrs_node (sanitizeHtml body)"
  using clean_child_safe_attrs by (auto simp: sanitizeHtml_def cleanNode_def list_all_iff)

section \<open>Properties of the document tree\<close>

lemma is_prefix_iff: "is_prefix a b \<longleftrightarrow> (\<exists>r. b = a @ r)"
proof
  assume "is_prefix a b"
  then have "b = a @ drop (length a) b"
    by (metis append_take_drop_id is_prefix_def)
  then show "\<exists>r. b = a @ r" ..
next
  assume "\<exists>r. b = a @ r"
  then show "is_prefix a b" by (auto simp: is_prefix_def)
qed





lemma node_at_append:
  "node_at n (p @ q) = (case node_at n p of None \<Rightarrow> None | Some m \<Rightarrow> node_at m q)"
  by (induction n p rule: node_at.induct) auto

lemma node_at_DText_empty: "node_at (DText []) q = (if q = [] then Some (DText []) else None)"
  by (cases q) auto

lemma subtree_append: "subtree doc (p @ q) = subtree (subtree doc p) q"
  by (cases "node_at doc p") (auto simp: subtree_def node_at_append node_at_DText_empty)

lemma node_at_subtree:
  "node_at doc p = Some n \<Longrightarrow> node_at doc (p @ q) = node_at (subtree doc p) q"
  by (simp add: node_at_append subtree_def)

lemma node_at_update_same: "node_at (update_at c f t) c = map_option f (node_at t c)"
  by (induction c f t rule: update_at.induct) auto



subsection \<open>The cells of a table\<close>







subsection \<open>The loop of the cross-cell deletion\<close>











lemma fold_clear_cell_Nil: "fold clear_cell [] st = st"
  by simp







subsection \<open>The anchor cell\<close>



lemma find_map_filter:
  "find Q (map g ds) = map_option g (case filter (\<lambda>q. Q (g q)) ds of [] \<Rightarrow> None | q # qs \<Rightarrow> Some q)"
  by (induction ds) simp_all











subsection \<open>addRowAbove, addRowBelow\<close>

lemma closest_has_tag: "closest doc p tag = Some q \<Longrightarrow> has_tag [tag] (node_at doc q)"
  by (auto simp: closest_def find_Some_iff)

lemma has_tag_exists: "has_tag tags n \<Longrightarrow> \<exists>m. n = Some m"
  by (cases n) auto

lemma first_row_spec:
  assumes "node_at doc tbl = Some n"
  shows "spec_first_row doc tbl = map_option ((@) tbl) (querySelector [''TR''] (subtree doc tbl))"
  by (simp add: spec_first_row_def querySelector_def querySelectorAll_def find_map_filter
      node_at_subtree[OF assms])

lemma getColumnCount_spec:
  assumes "node_at doc tbl = Some n"
  shows "getColumnCount (subtree doc tbl) = spec_first_row_width doc tbl"
  by (cases "querySelector [''TR''] (subtree doc tbl)")
     (simp_all add: getColumnCount_def spec_first_row_width_def first_row_spec[OF assms]
        subtree_append)

text \<open>
  Claim C10: for a cell with a row and a table above it, \<^verbatim>\<open>addRowAbove\<close> and
  \<^verbatim>\<open>addRowBelow\<close> return a new row whose children are data cells (\<^verbatim>\<open>td\<close>), each
  holding exactly one text node with the non-breaking space U+00A0, as many as the first
  row of the table has cells, whatever the number of cells of the row of the given cell.
  When the row of the cell is not in a header section, the new row is inserted among the
  children of the row's parent, directly before the row (above) or directly after it
  (below). When it is in a header section, both functions do the same: the new row
  becomes the first child of the first body section below the table, or, when there is
  none, the only row of a new body section appended to the table.
\<close>

theorem addRow_width_of_first_row:
  assumes r: "closest doc cell ''TR'' = Some row"
    and t: "closest doc cell ''TABLE'' = Some tbl"
  shows "fst (addRowAbove doc cell)
           = Some (DElem ''TR'' False
                     (replicate (spec_first_row_width doc tbl)
                        (DElem ''TD'' False [DText [CHR 0xA0]])))
       \<and> fst (addRowBelow doc cell)
           = Some (DElem ''TR'' False
                     (replicate (spec_first_row_width doc tbl)
                        (DElem ''TD'' False [DText [CHR 0xA0]])))
       \<and> (row \<noteq> [] \<and> \<not> has_tag [''THEAD''] (node_at doc (butlast row)) \<longrightarrow>
            node_at (snd (addRowAbove doc cell)) (butlast row)
              = map_option
                  (insertBefore (last row)
                     (DElem ''TR'' False
                        (replicate (spec_first_row_width doc tbl)
                           (DElem ''TD'' False [DText [CHR 0xA0]]))))
                  (node_at doc (butlast row))
            \<and> node_at (snd (addRowBelow doc cell)) (butlast row)
              = map_option
                  (insertBefore (Suc (last row))
                     (DElem ''TR'' False
                        (replicate (spec_first_row_width doc tbl)
                           (DElem ''TD'' False [DText [CHR 0xA0]]))))
                  (node_at doc (butlast row)))
       \<and> (row \<noteq> [] \<and> has_tag [''THEAD''] (node_at doc (butlast row)) \<longrightarrow>
            snd (addRowAbove doc cell) = snd (addRowBelow doc cell)
            \<and> (\<forall>tbody. querySelector [''TBODY''] (subtree doc tbl) = Some tbody \<longrightarrow>
                  node_at (snd (addRowAbove doc cell)) (tbl @ tbody)
                    = map_option
                        (insertBefore 0
                           (DElem ''TR'' False
                              (replicate (spec_first_row_width doc tbl)
                                 (DElem ''TD'' False [DText [CHR 0xA0]]))))
                        (node_at doc (tbl @ tbody)))
            \<and> (querySelector [''TBODY''] (subtree doc tbl) = None \<longrightarrow>
                  node_at (snd (addRowAbove doc cell)) tbl
                    = map_option
                        (appendChild
                           (DElem ''TBODY'' False
                              [DElem ''TR'' False
                                 (replicate (spec_first_row_width doc tbl)
                                    (DElem ''TD'' False [DText [CHR 0xA0]]))]))
                        (node_at doc tbl)))"
proof -
  from closest_has_tag[OF t] obtain n where n: "node_at doc tbl = Some n"
    using has_tag_exists by blast
  note c = getColumnCount_spec[OF n]
  show ?thesis
    by (simp add: addRowAbove_def addRowBelow_def r t c createDataRow_def Let_def
        node_at_update_same insert_into_tbody_def)
qed

theorem addRow_width_of_first_row_witness:
  "closest small_table [1, 0, 0] ''TR'' = Some [1, 0]
   \<and> closest small_table [1, 0, 0] ''TABLE'' = Some []
   \<and> node_at small_table [1, 0] = Some (DElem ''TR'' False [DElem ''TD'' False [DText ''a'']])
   \<and> spec_first_row_width small_table [] = 3
   \<and> fst (addRowAbove small_table [1, 0, 0])
       = Some (DElem ''TR'' False
                 [DElem ''TD'' False [DText [CHR 0xA0]], DElem ''TD'' False [DText [CHR 0xA0]],
                  DElem ''TD'' False [DText [CHR 0xA0]]])
   \<and> fst (addRowBelow small_table [1, 0, 0])
       = Some (DElem ''TR'' False
                 [DElem ''TD'' False [DText [CHR 0xA0]], DElem ''TD'' False [DText [CHR 0xA0]],
                  DElem ''TD'' False [DText [CHR 0xA0]]])
   \<and> node_at (snd (addRowBelow small_table [1, 0, 0])) [1]
       = Some (DElem ''TBODY'' False
                 [DElem ''TR'' False [DElem ''TD'' False [DText ''a'']],
                  DElem ''TR'' False
                    [DElem ''TD'' False [DText [CHR 0xA0]], DElem ''TD'' False [DText [CHR 0xA0]],
                     DElem ''TD'' False [DText [CHR 0xA0]]],
                  DElem ''TR'' False [DElem ''TD'' False [DText ''b''],
                                      DElem ''TD'' False [DText ''c'']]])
   \<and> node_at (snd (addRowAbove small_table [0, 0, 1])) [1]
       = Some (DElem ''TBODY'' False
                 [DElem ''TR'' False
                    [DElem ''TD'' False [DText [CHR 0xA0]], DElem ''TD'' False [DText [CHR 0xA0]],
                     DElem ''TD'' False [DText [CHR 0xA0]]],
                  DElem ''TR'' False [DElem ''TD'' False [DText ''a'']],
                  DElem ''TR'' False [DElem ''TD'' False [DText ''b''],
                                      DElem ''TD'' False [DText ''c'']]])
   \<and> addRowBelow header_only [0, 0, 0]
       = (Some (DElem ''TR'' False
                  [DElem ''TD'' False [DText [CHR 0xA0]], DElem ''TD'' False [DText [CHR 0xA0]]]),
          DElem ''TABLE'' False
            [DElem ''THEAD'' False
               [DElem ''TR'' False [DElem ''TH'' False [DText ''H1''],
                                    DElem ''TH'' False [DText ''H2'']]],
             DElem ''TBODY'' False
               [DElem ''TR'' False
                  [DElem ''TD'' False [DText [CHR 0xA0]],
                   DElem ''TD'' False [DText [CHR 0xA0]]]]])"
proof -
  have r: "closest small_table [1, 0, 0] ''TR'' = Some [1, 0]" by code_simp
  have t: "closest small_table [1, 0, 0] ''TABLE'' = Some []" by code_simp
  have w: "spec_first_row_width small_table [] = 3" by code_simp
  have h: "\<not> has_tag [''THEAD''] (node_at small_table [1])" by code_simp
  have p: "node_at small_table [1]
             = Some (DElem ''TBODY'' False
                 [DElem ''TR'' False [DElem ''TD'' False [DText ''a'']],
                  DElem ''TR'' False [DElem ''TD'' False [DText ''b''],
                                      DElem ''TD'' False [DText ''c'']]])"
    by code_simp
  have q: "node_at small_table [1, 0] = Some (DElem ''TR'' False [DElem ''TD'' False [DText ''a'']])"
    by code_simp
  have a: "node_at (snd (addRowAbove small_table [0, 0, 1])) [1]
       = Some (DElem ''TBODY'' False
                 [DElem ''TR'' False
                    [DElem ''TD'' False [DText [CHR 0xA0]], DElem ''TD'' False [DText [CHR 0xA0]],
                     DElem ''TD'' False [DText [CHR 0xA0]]],
                  DElem ''TR'' False [DElem ''TD'' False [DText ''a'']],
                  DElem ''TR'' False [DElem ''TD'' False [DText ''b''],
                                      DElem ''TD'' False [DText ''c'']]])"
    by code_simp
  have b: "addRowBelow header_only [0, 0, 0]
       = (Some (DElem ''TR'' False
                  [DElem ''TD'' False [DText [CHR 0xA0]], DElem ''TD'' False [DText [CHR 0xA0]]]),
          DElem ''TABLE'' False
            [DElem ''THEAD'' False
               [DElem ''TR'' False [DElem ''TH'' False [DText ''H1''],
                                    DElem ''TH'' False [DText ''H2'']]],
             DElem ''TBODY'' False
               [DElem ''TR'' False
                  [DElem ''TD'' False [DText [CHR 0xA0]],
                   DElem ''TD'' False [DText [CHR 0xA0]]]]])"
    by code_simp
  have c: "closest small_table [1, 0, 0] ''TR'' = Some [1, 0]
   \<and> closest small_table [1, 0, 0] ''TABLE'' = Some []
   \<and> node_at small_table [1, 0] = Some (DElem ''TR'' False [DElem ''TD'' False [DText ''a'']])
   \<and> spec_first_row_width small_table [] = 3
   \<and> fst (addRowAbove small_table [1, 0, 0])
       = Some (DElem ''TR'' False
                 [DElem ''TD'' False [DText [CHR 0xA0]], DElem ''TD'' False [DText [CHR 0xA0]],
                  DElem ''TD'' False [DText [CHR 0xA0]]])
   \<and> fst (addRowBelow small_table [1, 0, 0])
       = Some (DElem ''TR'' False
                 [DElem ''TD'' False [DText [CHR 0xA0]], DElem ''TD'' False [DText [CHR 0xA0]],
                  DElem ''TD'' False [DText [CHR 0xA0]]])
   \<and> node_at (snd (addRowBelow small_table [1, 0, 0])) [1]
       = Some (DElem ''TBODY'' False
                 [DElem ''TR'' False [DElem ''TD'' False [DText ''a'']],
                  DElem ''TR'' False
                    [DElem ''TD'' False [DText [CHR 0xA0]], DElem ''TD'' False [DText [CHR 0xA0]],
                     DElem ''TD'' False [DText [CHR 0xA0]]],
                  DElem ''TR'' False [DElem ''TD'' False [DText ''b''],
                                      DElem ''TD'' False [DText ''c'']]])"
    using addRow_width_of_first_row [OF r t] r t w h p q
    by (simp add: numeral_3_eq_3)
  show ?thesis using c a b by (simp only: simp_thms)
qed

subsection \<open>removeRow\<close>

text \<open>
  Claim C2 asks that \<^verbatim>\<open>removeRow\<close> refuses the header row and the last remaining body
  row and removes every other row. On the table with two body sections, the first holding
  one row and the second two, the cell's row is the first row of the second body section:
  it is not a header row and not the last remaining body row (the table has three body
  rows), yet \<^verbatim>\<open>removeRow\<close> returns false and leaves the table as it is, because its
  guard counts the rows of the first body section only. On the table whose only body row
  holds a nested table of two rows, the guard counts the rows of the nested table as
  well, so \<^verbatim>\<open>removeRow\<close> returns true and removes the last remaining body row.
\<close>

theorem removeRow_guard_misses_body_rows:
  "closest two_bodies [2, 0, 0] ''TR'' = Some [2, 0]
   \<and> has_tag [''TBODY''] (node_at two_bodies [2])
   \<and> querySelectorAll [''TR''] (subtree two_bodies [1]) = [[0]]
   \<and> querySelectorAll [''TR''] (subtree two_bodies [2]) = [[0], [1]]
   \<and> removeRow two_bodies [2, 0, 0] = (False, two_bodies)
   \<and> closest nested_table [1, 0, 0] ''TR'' = Some [1, 0]
   \<and> map (\<lambda>n. length (filter is_element (dom_childNodes n))) (dom_childNodes nested_table)
       = [1, 1]
   \<and> removeRow nested_table [1, 0, 0]
       = (True, DElem ''TABLE'' False
                  [DElem ''THEAD'' False [DElem ''TR'' False [DElem ''TH'' False [DText ''H'']]],
                   DElem ''TBODY'' False []])"
  by code_simp

subsection \<open>handleCrossCellDelete\<close>







end
